theory Spec2Isabelle
  imports Complex_Main
begin

section \<open>Numbers, errors and arrays\<close>

text \<open>
  The notebooks compute with Python floats and numpy \<open>float64\<close> arrays. Both are modelled by
  \<^typ>\<open>real\<close>: rounding and overflow are not represented, and the values \<open>inf\<close> and
  \<open>nan\<close> only in \<open>binomial_tree_np\<close>. Two kinds of division occur in the source and they
  fail differently:
  \<^item> a division of two Python scalars (the arguments of a function) raises
    \<open>ZeroDivisionError\<close> when the divisor is zero; it is modelled by \<open>py_div\<close>;
  \<^item> a division that involves an element of a numpy array raises nothing (numpy warns and
    yields \<open>inf\<close> or \<open>nan\<close>); it is written with the division of \<^typ>\<open>real\<close>, so
    where a divisor is zero the model's value is not the source's.
  A scalar argument is either a Python number, as in every call of the notebooks, or a
  numpy \<open>float64\<close> scalar, and a division is numpy's as soon as one operand is. Only
  \<open>binomial_tree\<close> divides by scalars that can be zero (\<open>u - d\<close> and \<open>1 + r_f\<close>), so only
  there does the kind of the arguments matter: \<open>binomial_tree\<close> below is the call with Python
  numbers for \<open>r_f\<close>, \<open>u\<close> and \<open>d\<close>, \<open>binomial_tree_np\<close> the call with a numpy scalar among
  them, and \<open>binomial_tree_call\<close> takes the kinds as arguments.
  The exceptions the modelled code can raise are the three below; \<open>ValueError\<close> is raised by
  \<open>np.zeros\<close> on a negative dimension and by storing a string into a float array,
  \<open>IndexError\<close> by an index outside an array. A period count is a natural number, except
  in \<open>binomial_tree\<close>, where it is an integer and the negative counts raise.
\<close>

datatype error = ZeroDivisionError | IndexError | ValueError

definition bindE :: "error + 'a \<Rightarrow> ('a \<Rightarrow> error + 'b) \<Rightarrow> error + 'b" where
  "bindE m f = (case m of Inl e \<Rightarrow> Inl e | Inr x \<Rightarrow> f x)"

definition py_div :: "real \<Rightarrow> real \<Rightarrow> error + real" where
  "py_div x y = (if y = 0 then Inl ZeroDivisionError else Inr (x / y))"

text \<open>A \<open>for\<close> loop whose body may raise: the first exception ends the loop.\<close>

fun foldE :: "('a \<Rightarrow> 's \<Rightarrow> error + 's) \<Rightarrow> 'a list \<Rightarrow> 's \<Rightarrow> error + 's" where
  "foldE f [] s = Inr s"
| "foldE f (x # xs) s = (case f x s of Inl e \<Rightarrow> Inl e | Inr s' \<Rightarrow> foldE f xs s')"

text \<open>
  A two-dimensional numpy array is a list of rows. \<open>zeros r c\<close> is \<open>np.zeros((r, c))\<close>,
  \<open>get2 a i j\<close> reads \<open>a[i, j]\<close> and \<open>set2 a i j v\<close> is the array after \<open>a[i, j] = v\<close>.
  Both are used only at indices inside the array; the one read of the source that can leave
  its array goes through \<open>np_get\<close>.
\<close>

type_synonym lattice = "real list list"

definition zeros :: "nat \<Rightarrow> nat \<Rightarrow> lattice" where
  "zeros r c = replicate r (replicate c 0)"

definition get2 :: "lattice \<Rightarrow> nat \<Rightarrow> nat \<Rightarrow> real" where
  "get2 a i j = a ! i ! j"

definition set2 :: "lattice \<Rightarrow> nat \<Rightarrow> nat \<Rightarrow> real \<Rightarrow> lattice" where
  "set2 a i j v = a[i := (a ! i)[j := v]]"

definition np_get :: "lattice \<Rightarrow> nat \<Rightarrow> nat \<Rightarrow> error + real" where
  "np_get a i j = (if i < length a \<and> j < length (a ! i) then Inr (a ! i ! j) else Inl IndexError)"

section \<open>Lattices of the state variable\<close>

text \<open>
  \<open>stock_lattice\<close> (binomial pricing notebook) and \<open>short_rate\<close> (term-structure, swap and
  swaption notebooks) have the same body:
  \<^verbatim>\<open>
  rate = np.zeros((n+1,n+1))
  rate[0,0] = r_0
  for i in range(1,n+1):
      rate[i,0] = rate[i-1,0]*d
      for j in range(1,i+1):
          rate[i,j] = rate[i-1,j-1]*u
  \<close>
\<close>

definition short_rate :: "real \<Rightarrow> nat \<Rightarrow> real \<Rightarrow> real \<Rightarrow> lattice" where
  "short_rate r_0 n u d =
     fold (\<lambda>i rate.
             fold (\<lambda>j rate. set2 rate i j (get2 rate (i - 1) (j - 1) * u))
                  [1..<i + 1]
                  (set2 rate i 0 (get2 rate (i - 1) 0 * d)))
          [1..<n + 1]
          (set2 (zeros (n + 1) (n + 1)) 0 0 r_0)"

definition stock_lattice :: "real \<Rightarrow> nat \<Rightarrow> real \<Rightarrow> real \<Rightarrow> lattice" where
  "stock_lattice S_0 n u d =
     fold (\<lambda>i stock_price.
             fold (\<lambda>j stock_price. set2 stock_price i j (get2 stock_price (i - 1) (j - 1) * u))
                  [1..<i + 1]
                  (set2 stock_price i 0 (get2 stock_price (i - 1) 0 * d)))
          [1..<n + 1]
          (set2 (zeros (n + 1) (n + 1)) 0 0 S_0)"

section \<open>Option pricing: \<open>binomial_tree\<close>\<close>

text \<open>
  The terminal column: \<open>option_price[n,i] = max(0, stock_price[n,i]-K)\<close> for a call,
  \<open>max(0, K-stock_price[n,i])\<close> for a put, and no assignment for any other tag.
\<close>

definition terminal_payoff :: "string \<Rightarrow> real \<Rightarrow> nat \<Rightarrow> lattice \<Rightarrow> nat \<Rightarrow> lattice \<Rightarrow> lattice" where
  "terminal_payoff PutCall K n stock_price i option_price =
     (if PutCall = ''Call'' then set2 option_price n i (max 0 (get2 stock_price n i - K))
      else if PutCall = ''Put'' then set2 option_price n i (max 0 (K - get2 stock_price n i))
      else option_price)"

text \<open>
  The body of the European loop,
  \<open>option_price[i,j] = (1/(1+r_f))*(q*option_price[i+1,j+1]+(1-q)*option_price[i+1,j])\<close>;
  \<open>1/(1+r_f)\<close> divides Python scalars.
\<close>

definition european_step :: "real \<Rightarrow> real \<Rightarrow> nat \<Rightarrow> nat \<Rightarrow> lattice \<Rightarrow> error + lattice" where
  "european_step r_f q i j option_price =
     bindE (py_div 1 (1 + r_f)) (\<lambda>disc.
       Inr (set2 option_price i j
              (disc * (q * get2 option_price (i + 1) (j + 1) + (1 - q) * get2 option_price (i + 1) j))))"

text \<open>
  The body of the American loop: \<open>max(0, K - stock_price[i,j], continuation)\<close> for a put,
  \<open>max(0, stock_price[i,j] - K, continuation)\<close> for a call; for any other tag neither
  branch runs and the division is not evaluated.
\<close>

definition american_step ::
  "string \<Rightarrow> real \<Rightarrow> real \<Rightarrow> real \<Rightarrow> lattice \<Rightarrow> nat \<Rightarrow> nat \<Rightarrow> lattice \<Rightarrow> error + lattice" where
  "american_step PutCall K r_f q stock_price i j option_price =
     (if PutCall = ''Put'' then
        bindE (py_div 1 (1 + r_f)) (\<lambda>disc.
          Inr (set2 option_price i j
                 (max 0 (max (K - get2 stock_price i j)
                    (disc * (q * get2 option_price (i + 1) (j + 1) + (1 - q) * get2 option_price (i + 1) j))))))
      else if PutCall = ''Call'' then
        bindE (py_div 1 (1 + r_f)) (\<lambda>disc.
          Inr (set2 option_price i j
                 (max 0 (max (get2 stock_price i j - K)
                    (disc * (q * get2 option_price (i + 1) (j + 1) + (1 - q) * get2 option_price (i + 1) j))))))
      else Inr option_price)"

text \<open>
  \<open>binomial_tree(n, r_f, S_0, K, u, d, PutCall, Type)\<close>, called with Python numbers for
  \<open>r_f\<close>, \<open>u\<close> and \<open>d\<close>. The first statement computes \<open>q = ((1.0 + r_f) - d)/(u-d)\<close> on
  Python scalars. The period count is a Python integer:
  for \<open>n < -1\<close> the call \<open>np.zeros((n+1,n+1))\<close> in \<open>stock_lattice\<close> raises \<open>ValueError\<close>,
  for \<open>n = -1\<close> the array is empty and \<open>stock_price[0,0] = S_0\<close> raises \<open>IndexError\<close>.
  The loops \<open>range(n-1,-1,-1)\<close> run \<open>i\<close> from \<open>n-1\<close> down to \<open>0\<close>. A \<open>Type\<close> that is
  neither \<open>'E'\<close> nor \<open>'A'\<close> runs no loop.
\<close>

definition binomial_tree ::
  "int \<Rightarrow> real \<Rightarrow> real \<Rightarrow> real \<Rightarrow> real \<Rightarrow> real \<Rightarrow> string \<Rightarrow> string \<Rightarrow> error + real" where
  "binomial_tree n r_f S_0 K u d PutCall Type =
     bindE (py_div ((1 + r_f) - d) (u - d)) (\<lambda>q.
       if n < - 1 then Inl ValueError
       else if n = - 1 then Inl IndexError
       else
         let m = nat n;
             stock_price = stock_lattice S_0 m u d;
             option_price = fold (terminal_payoff PutCall K m stock_price) [0..<m + 1]
                              (zeros (m + 1) (m + 1))
         in bindE
              (if Type = ''E'' then
                 foldE (\<lambda>i. foldE (european_step r_f q i) [0..<i + 1]) (rev [0..<m]) option_price
               else if Type = ''A'' then
                 foldE (\<lambda>i. foldE (american_step PutCall K r_f q stock_price i) [0..<i + 1])
                   (rev [0..<m]) option_price
               else Inr option_price)
              (\<lambda>option_price. Inr (get2 option_price 0 0)))"

text \<open>
  The same function called with a numpy \<open>float64\<close> scalar among \<open>r_f\<close>, \<open>u\<close>, \<open>d\<close>. A
  division by zero then raises nothing: numpy warns and the quotient is \<open>inf\<close>, \<open>-inf\<close> or
  \<open>nan\<close>, which the rest of the body computes with. \<open>npfloat\<close> adds these three values to
  the reals, with the arithmetic of IEEE 754 on them (finite results stay exact). The two
  divisors \<open>u - d\<close> and \<open>1 + r_f\<close> are finite, and when they vanish they are the positive
  zero, so the sign of a quotient by zero is the sign of the dividend.
\<close>

datatype scalar_kind = Python_scalar | Numpy_scalar

datatype npfloat = Fin real | PInf | NInf | NaN

definition np_div :: "real \<Rightarrow> real \<Rightarrow> npfloat" where
  "np_div x y =
     (if y \<noteq> 0 then Fin (x / y) else if 0 < x then PInf else if x < 0 then NInf else NaN)"

fun np_neg :: "npfloat \<Rightarrow> npfloat" where
  "np_neg (Fin a) = Fin (- a)"
| "np_neg PInf = NInf"
| "np_neg NInf = PInf"
| "np_neg NaN = NaN"

fun np_add :: "npfloat \<Rightarrow> npfloat \<Rightarrow> npfloat" where
  "np_add NaN y = NaN"
| "np_add x NaN = NaN"
| "np_add (Fin a) (Fin b) = Fin (a + b)"
| "np_add PInf NInf = NaN"
| "np_add NInf PInf = NaN"
| "np_add PInf y = PInf"
| "np_add x PInf = PInf"
| "np_add NInf y = NInf"
| "np_add x NInf = NInf"

definition np_sub :: "npfloat \<Rightarrow> npfloat \<Rightarrow> npfloat" where
  "np_sub x y = np_add x (np_neg y)"

fun np_mul :: "npfloat \<Rightarrow> npfloat \<Rightarrow> npfloat" where
  "np_mul NaN y = NaN"
| "np_mul x NaN = NaN"
| "np_mul (Fin a) (Fin b) = Fin (a * b)"
| "np_mul (Fin a) PInf = (if 0 < a then PInf else if a < 0 then NInf else NaN)"
| "np_mul (Fin a) NInf = (if 0 < a then NInf else if a < 0 then PInf else NaN)"
| "np_mul PInf (Fin b) = (if 0 < b then PInf else if b < 0 then NInf else NaN)"
| "np_mul NInf (Fin b) = (if 0 < b then NInf else if b < 0 then PInf else NaN)"
| "np_mul PInf PInf = PInf"
| "np_mul NInf NInf = PInf"
| "np_mul PInf NInf = NInf"
| "np_mul NInf PInf = NInf"

text \<open>
  Python's \<open>max(0, a, b)\<close> keeps its current maximum unless the next argument is greater,
  and no comparison with \<open>nan\<close> is true: it is \<open>py_max (py_max 0 a) b\<close>.
\<close>

fun np_gt :: "npfloat \<Rightarrow> npfloat \<Rightarrow> bool" where
  "np_gt NaN y = False"
| "np_gt x NaN = False"
| "np_gt (Fin a) (Fin b) = (b < a)"
| "np_gt PInf PInf = False"
| "np_gt PInf y = True"
| "np_gt x PInf = False"
| "np_gt NInf y = False"
| "np_gt x NInf = True"

definition py_max :: "npfloat \<Rightarrow> npfloat \<Rightarrow> npfloat" where
  "py_max x y = (if np_gt y x then y else x)"

definition zeros_np :: "nat \<Rightarrow> nat \<Rightarrow> npfloat list list" where
  "zeros_np r c = replicate r (replicate c (Fin 0))"

definition get2_np :: "npfloat list list \<Rightarrow> nat \<Rightarrow> nat \<Rightarrow> npfloat" where
  "get2_np a i j = a ! i ! j"

definition set2_np :: "npfloat list list \<Rightarrow> nat \<Rightarrow> nat \<Rightarrow> npfloat \<Rightarrow> npfloat list list" where
  "set2_np a i j v = a[i := (a ! i)[j := v]]"

text \<open>
  \<open>1/(1+r_f)\<close> raises when \<open>r_f\<close> is a Python number and is numpy's division otherwise.
\<close>

definition scalar_div :: "scalar_kind \<Rightarrow> real \<Rightarrow> real \<Rightarrow> error + npfloat" where
  "scalar_div kind x y =
     (case kind of
        Python_scalar \<Rightarrow> (case py_div x y of Inl e \<Rightarrow> Inl e | Inr v \<Rightarrow> Inr (Fin v))
      | Numpy_scalar \<Rightarrow> Inr (np_div x y))"

definition terminal_payoff_np ::
  "string \<Rightarrow> real \<Rightarrow> nat \<Rightarrow> lattice \<Rightarrow> nat \<Rightarrow> npfloat list list \<Rightarrow> npfloat list list" where
  "terminal_payoff_np PutCall K n stock_price i option_price =
     (if PutCall = ''Call'' then
        set2_np option_price n i (py_max (Fin 0) (Fin (get2 stock_price n i - K)))
      else if PutCall = ''Put'' then
        set2_np option_price n i (py_max (Fin 0) (Fin (K - get2 stock_price n i)))
      else option_price)"

definition continuation_np :: "npfloat \<Rightarrow> npfloat \<Rightarrow> nat \<Rightarrow> nat \<Rightarrow> npfloat list list \<Rightarrow> npfloat" where
  "continuation_np disc q i j option_price =
     np_mul disc
       (np_add (np_mul q (get2_np option_price (i + 1) (j + 1)))
               (np_mul (np_sub (Fin 1) q) (get2_np option_price (i + 1) j)))"

definition european_step_np ::
  "scalar_kind \<Rightarrow> real \<Rightarrow> npfloat \<Rightarrow> nat \<Rightarrow> nat \<Rightarrow> npfloat list list \<Rightarrow> error + npfloat list list" where
  "european_step_np kind r_f q i j option_price =
     bindE (scalar_div kind 1 (1 + r_f)) (\<lambda>disc.
       Inr (set2_np option_price i j (continuation_np disc q i j option_price)))"

definition american_step_np ::
  "scalar_kind \<Rightarrow> string \<Rightarrow> real \<Rightarrow> real \<Rightarrow> npfloat \<Rightarrow> lattice \<Rightarrow> nat \<Rightarrow> nat \<Rightarrow>
   npfloat list list \<Rightarrow> error + npfloat list list" where
  "american_step_np kind PutCall K r_f q stock_price i j option_price =
     (if PutCall = ''Put'' then
        bindE (scalar_div kind 1 (1 + r_f)) (\<lambda>disc.
          Inr (set2_np option_price i j
                 (py_max (py_max (Fin 0) (Fin (K - get2 stock_price i j)))
                    (continuation_np disc q i j option_price))))
      else if PutCall = ''Call'' then
        bindE (scalar_div kind 1 (1 + r_f)) (\<lambda>disc.
          Inr (set2_np option_price i j
                 (py_max (py_max (Fin 0) (Fin (get2 stock_price i j - K)))
                    (continuation_np disc q i j option_price))))
      else Inr option_price)"

text \<open>
  \<open>kind_r\<close> is the kind of \<open>r_f\<close>; one of \<open>r_f\<close>, \<open>u\<close>, \<open>d\<close> is a numpy scalar, so \<open>q\<close> is
  computed by numpy's division. The stock lattice is finite.
\<close>

definition binomial_tree_np ::
  "scalar_kind \<Rightarrow> int \<Rightarrow> real \<Rightarrow> real \<Rightarrow> real \<Rightarrow> real \<Rightarrow> real \<Rightarrow> string \<Rightarrow> string \<Rightarrow> error + npfloat" where
  "binomial_tree_np kind_r n r_f S_0 K u d PutCall Type =
     (let q = np_div ((1 + r_f) - d) (u - d)
      in if n < - 1 then Inl ValueError
         else if n = - 1 then Inl IndexError
         else
           let m = nat n;
               stock_price = stock_lattice S_0 m u d;
               option_price = fold (terminal_payoff_np PutCall K m stock_price) [0..<m + 1]
                                (zeros_np (m + 1) (m + 1))
           in bindE
                (if Type = ''E'' then
                   foldE (\<lambda>i. foldE (european_step_np kind_r r_f q i) [0..<i + 1]) (rev [0..<m])
                     option_price
                 else if Type = ''A'' then
                   foldE (\<lambda>i. foldE (american_step_np kind_r PutCall K r_f q stock_price i) [0..<i + 1])
                     (rev [0..<m]) option_price
                 else Inr option_price)
                (\<lambda>option_price. Inr (get2_np option_price 0 0)))"

text \<open>
  A call of \<open>binomial_tree\<close> with the kinds of \<open>r_f\<close>, \<open>u\<close> and \<open>d\<close> given. With three Python
  numbers no operation of the body leaves the reals, the two scalar divisions raising
  instead, and the call is \<open>binomial_tree\<close> above.
\<close>

definition binomial_tree_call ::
  "scalar_kind \<Rightarrow> scalar_kind \<Rightarrow> scalar_kind \<Rightarrow>
   int \<Rightarrow> real \<Rightarrow> real \<Rightarrow> real \<Rightarrow> real \<Rightarrow> real \<Rightarrow> string \<Rightarrow> string \<Rightarrow> error + npfloat" where
  "binomial_tree_call kind_r kind_u kind_d n r_f S_0 K u d PutCall Type =
     (if kind_r = Python_scalar \<and> kind_u = Python_scalar \<and> kind_d = Python_scalar then
        (case binomial_tree n r_f S_0 K u d PutCall Type of Inl e \<Rightarrow> Inl e | Inr v \<Rightarrow> Inr (Fin v))
      else binomial_tree_np kind_r n r_f S_0 K u d PutCall Type)"

text \<open>
  The option pricer as the specification's interface convention words it: the risk-free
  rate is a percentage and is divided by \<open>100\<close> before any use. This definition follows the
  specification, not the source; it is what \<open>binomial_tree\<close> is compared with.
\<close>

definition binomial_tree_percent ::
  "int \<Rightarrow> real \<Rightarrow> real \<Rightarrow> real \<Rightarrow> real \<Rightarrow> real \<Rightarrow> string \<Rightarrow> string \<Rightarrow> error + real" where
  "binomial_tree_percent n r_f S_0 K u d PutCall Type = binomial_tree n (r_f / 100) S_0 K u d PutCall Type"

section \<open>Forward equations: elementary prices, bond prices, spot rates\<close>

text \<open>
  \<open>elementary_prices(r_0,n,u,d)\<close> of the forward-equations notebook. \<open>s\<close> is the short-rate
  lattice divided elementwise by \<open>100.0\<close>; \<open>np.zeros_like(s)\<close> has its shape. The first loop
  fills column \<open>0\<close>; the second loop assigns column \<open>0\<close> of row \<open>i\<close> again and then the
  entries \<open>j = 1..i\<close>, with one term on the diagonal (\<open>i > j\<close> false) and two below it.
\<close>

definition elementary_prices :: "real \<Rightarrow> nat \<Rightarrow> real \<Rightarrow> real \<Rightarrow> lattice" where
  "elementary_prices r_0 n u d =
     (let s = map (map (\<lambda>x. x / 100)) (short_rate r_0 n u d);
          e_prices = set2 (zeros (n + 1) (n + 1)) 0 0 1;
          e_prices = fold (\<lambda>i e_prices.
                             set2 e_prices i 0 (get2 e_prices (i - 1) 0 / (2 * (1 + get2 s (i - 1) 0))))
                       [1..<n + 1] e_prices
      in fold (\<lambda>i e_prices.
            fold (\<lambda>j e_prices.
                    if i > j then
                      set2 e_prices i j
                        (get2 e_prices (i - 1) (j - 1) / (2 * (1 + get2 s (i - 1) (j - 1)))
                         + get2 e_prices (i - 1) j / (2 * (1 + get2 s (i - 1) j)))
                    else
                      set2 e_prices i j
                        (get2 e_prices (i - 1) (j - 1) / (2 * (1 + get2 s (i - 1) (j - 1)))))
                 [1..<i + 1]
                 (set2 e_prices i 0 (get2 e_prices (i - 1) 0 / (2 * (1 + get2 s (i - 1) 0)))))
            [1..<n + 1] e_prices)"

text \<open>
  \<open>zcb_price_forward(k,r_0,u,d,fv=100)\<close> returns \<open>fv*np.sum(e_prices,axis=1)[k]\<close>:
  \<open>np.sum(..., axis=1)\<close> is the list of the sums of the rows.
\<close>

definition zcb_price_forward :: "nat \<Rightarrow> real \<Rightarrow> real \<Rightarrow> real \<Rightarrow> real \<Rightarrow> real" where
  "zcb_price_forward k r_0 u d fv =
     (let e_prices = elementary_prices r_0 k u d
      in fv * (map sum_list e_prices) ! k)"

text \<open>
  \<open>term_structure(r_0, n, u, d)\<close> calls \<open>zcb_price_forward\<close> with the default face value
  \<open>100\<close>, computes \<open>(100.0/zcb_price_arr[i])**(1/i) - 1.0\<close> for \<open>i = 1..n\<close> and returns
  \<open>spot_rates[1:]\<close>. The power with a real exponent is \<open>powr\<close>, which agrees with \<open>**\<close> on
  a positive base; the bond prices of the lattices considered below are positive.
\<close>

definition term_structure :: "real \<Rightarrow> nat \<Rightarrow> real \<Rightarrow> real \<Rightarrow> real list" where
  "term_structure r_0 n u d =
     (let zcb_price_arr = fold (\<lambda>i zcb_price_arr. zcb_price_arr[i := zcb_price_forward i r_0 u d 100])
                            [1..<n + 1] (replicate (n + 1) 0);
          spot_rates = fold (\<lambda>i spot_rates.
                               spot_rates[i := (100 / zcb_price_arr ! i) powr (1 / real i) - 1])
                         [1..<n + 1] (replicate (n + 1) 0)
      in drop 1 spot_rates)"

section \<open>Swaps and swaptions\<close>

text \<open>
  The body of the backward loop of \<open>swap_price\<close> in the swap notebook. Its first branch
  stores the string \<open>''\<close> into a float array, which numpy refuses with \<open>ValueError\<close>.
\<close>

definition swap_step :: "real \<Rightarrow> lattice \<Rightarrow> nat \<Rightarrow> nat \<Rightarrow> lattice \<Rightarrow> error + lattice" where
  "swap_step k rate_lattice i j swap_lattice =
     (if i < j then Inl ValueError
      else Inr (set2 swap_lattice i j
             ((1 / (1 + get2 rate_lattice i j)) *
              ((1 / 2) * get2 swap_lattice (i + 1) (j + 1) + (1 - 1 / 2) * get2 swap_lattice (i + 1) j
               + (get2 rate_lattice i j - k / 100)))))"

text \<open>
  \<open>swap_price(p,k,r_0,n,u,d)\<close> of the swap notebook. The rate lattice is
  \<open>short_rate(r_0,n-1,u,d)\<close> divided by \<open>100.0\<close>, an \<open>n \<times> n\<close> array; for \<open>n = 0\<close> that array
  is empty and \<open>rate[0,0] = r_0\<close> inside \<open>short_rate\<close> raises \<open>IndexError\<close>. The terminal row
  is \<open>n-1\<close>, the loop \<open>range(n-2,-1,-1)\<close> runs \<open>i\<close> from \<open>n-2\<close> down to \<open>0\<close>, and the result
  is \<open>swap_price[0,0]*p\<close>. The \<open>print\<close> before the return is output only.
\<close>

definition swap_price :: "real \<Rightarrow> real \<Rightarrow> real \<Rightarrow> nat \<Rightarrow> real \<Rightarrow> real \<Rightarrow> error + real" where
  "swap_price p k r_0 n u d =
     (if n = 0 then Inl IndexError
      else
        let rate_lattice = map (map (\<lambda>x. x / 100)) (short_rate r_0 (n - 1) u d);
            swap_lattice = fold (\<lambda>i swap_lattice.
                                   set2 swap_lattice (n - 1) i
                                     ((get2 rate_lattice (n - 1) i - k / 100) / (1 + get2 rate_lattice (n - 1) i)))
                             [0..<n] (zeros n n)
        in bindE (foldE (\<lambda>i. foldE (swap_step k rate_lattice i) [0..<i + 1]) (rev [0..<n - 1]) swap_lattice)
             (\<lambda>swap_lattice. Inr (get2 swap_lattice 0 0 * p)))"

text \<open>
  The swaption notebook has a \<open>swap_price\<close> of its own, here \<open>swap_price'\<close>: the same
  recursion without the string branch, returning the whole array; its notional \<open>p\<close> is not
  used.
\<close>

definition swap_price' :: "real \<Rightarrow> real \<Rightarrow> real \<Rightarrow> nat \<Rightarrow> real \<Rightarrow> real \<Rightarrow> error + lattice" where
  "swap_price' p k r_0 n u d =
     (if n = 0 then Inl IndexError
      else
        let rate_lattice = map (map (\<lambda>x. x / 100)) (short_rate r_0 (n - 1) u d);
            swap_lattice = fold (\<lambda>i swap_lattice.
                                   set2 swap_lattice (n - 1) i
                                     ((get2 rate_lattice (n - 1) i - k / 100) / (1 + get2 rate_lattice (n - 1) i)))
                             [0..<n] (zeros n n)
        in Inr (fold (\<lambda>i. fold (\<lambda>j swap_lattice.
                        set2 swap_lattice i j
                          ((1 / (1 + get2 rate_lattice i j)) *
                           ((1 / 2) * get2 swap_lattice (i + 1) (j + 1)
                            + (1 - 1 / 2) * get2 swap_lattice (i + 1) j
                            + (get2 rate_lattice i j - k / 100))))
                      [0..<i + 1])
                  (rev [0..<n - 1]) swap_lattice))"

text \<open>
  \<open>swaption_price(k,r_f,r_0,n_o,n,u,d)\<close>. The underlying swap lattice is
  \<open>swap_price(1.0,r_f,r_0,n,u,d)\<close>, an \<open>n \<times> n\<close> array; the terminal loop reads
  \<open>s_price_arr[n_o,i]\<close> for \<open>i = 0..n_o\<close>, which is outside that array when \<open>n_o \<ge> n\<close>.
\<close>

definition swaption_price ::
  "real \<Rightarrow> real \<Rightarrow> real \<Rightarrow> nat \<Rightarrow> nat \<Rightarrow> real \<Rightarrow> real \<Rightarrow> error + real" where
  "swaption_price k r_f r_0 n_o n u d =
     bindE (swap_price' 1 r_f r_0 n u d) (\<lambda>s_price_arr.
       let rate_lattice = map (map (\<lambda>x. x / 100)) (short_rate r_0 n_o u d)
       in bindE
            (foldE (\<lambda>i swaption_lattice.
                      bindE (np_get s_price_arr n_o i) (\<lambda>x.
                        Inr (set2 swaption_lattice n_o i (max x 0))))
               [0..<n_o + 1] (zeros (n_o + 1) (n_o + 1)))
            (\<lambda>swaption_lattice.
               Inr (get2
                      (fold (\<lambda>i. fold (\<lambda>j swaption_lattice.
                               set2 swaption_lattice i j
                                 ((1 / (1 + get2 rate_lattice i j)) *
                                  ((1 / 2) * get2 swaption_lattice (i + 1) (j + 1)
                                   + (1 - 1 / 2) * get2 swaption_lattice (i + 1) j)))
                             [0..<i + 1])
                         (rev [0..<n_o]) swaption_lattice)
                      0 0)))"

section \<open>Reasoning about array loops\<close>

text \<open>
  The loops of the source fill a square array row by row, each entry from entries of one
  neighbouring row. \<open>shape a N\<close> says that \<open>a\<close> is an \<open>N \<times> N\<close> array; \<open>sweep g rows V\<close>
  is the nested loop that assigns \<open>g i j V\<close> to entry \<open>(i, j)\<close> for \<open>j = 0..i\<close>, for the rows
  in the given order. These notions serve the proofs only.
\<close>

definition shape :: "lattice \<Rightarrow> nat \<Rightarrow> bool" where
  "shape a N \<longleftrightarrow> length a = N \<and> (\<forall>i<N. length (a ! i) = N)"

lemma shape_zeros: "shape (zeros N N) N"
  by (simp add: shape_def zeros_def)

lemma get2_zeros: "i < r \<Longrightarrow> j < c \<Longrightarrow> get2 (zeros r c) i j = 0"
  by (simp add: get2_def zeros_def)

lemma shape_set2: "shape a N \<Longrightarrow> shape (set2 a i j v) N"
proof (cases "i < length a")
  case True
  assume "shape a N"
  with True show ?thesis
    by (auto simp: shape_def set2_def nth_list_update)
next
  case False
  assume "shape a N"
  with False show ?thesis
    by (simp add: shape_def set2_def)
qed

lemma get2_set2:
  "shape a N \<Longrightarrow> i < N \<Longrightarrow> j < N \<Longrightarrow>
   get2 (set2 a i j v) i' j' = (if i' = i \<and> j' = j then v else get2 a i' j')"
  by (auto simp: shape_def set2_def get2_def nth_list_update)

lemma foldE_pure:
  "(\<And>x s. x \<in> set xs \<Longrightarrow> f x s = Inr (g x s)) \<Longrightarrow> foldE f xs s = Inr (fold g xs s)"
  by (induction xs arbitrary: s) auto

text \<open>Filling row i, entry by entry, from values that do not depend on row i.\<close>

definition off_row :: "nat \<Rightarrow> (lattice \<Rightarrow> 'a) \<Rightarrow> bool" where
  "off_row i h \<longleftrightarrow> (\<forall>V V'. (\<forall>i' j'. i' \<noteq> i \<longrightarrow> get2 V' i' j' = get2 V i' j') \<longrightarrow> h V' = h V)"

lemma row_fill:
  assumes sh: "shape V N" and i: "i < N" and k: "k \<le> N"
    and g: "\<And>j. off_row i (g j)"
  shows "shape (fold (\<lambda>j V. set2 V i j (g j V)) [0..<k] V) N \<and>
         (\<forall>i' j'. get2 (fold (\<lambda>j V. set2 V i j (g j V)) [0..<k] V) i' j' =
                  (if i' = i \<and> j' < k then g j' V else get2 V i' j'))"
  using k
proof (induction k)
  case 0
  show ?case using sh by simp
next
  case (Suc k)
  let ?X = "fold (\<lambda>j V. set2 V i j (g j V)) [0..<k] V"
  from Suc have shX: "shape ?X N"
    and vals: "\<And>i' j'. get2 ?X i' j' = (if i' = i \<and> j' < k then g j' V else get2 V i' j')"
    by simp_all
  have same: "g k ?X = g k V"
    using g [of k] vals unfolding off_row_def by simp
  have kN: "k < N" using Suc.prems by simp
  show ?case
    using shX kN i same vals
    by (auto simp: shape_set2 get2_set2 [OF shX i kN] less_Suc_eq)
qed

definition reads_row :: "nat \<Rightarrow> (lattice \<Rightarrow> 'a) \<Rightarrow> bool" where
  "reads_row r h \<longleftrightarrow> (\<forall>V V'. (\<forall>j. get2 V' r j = get2 V r j) \<longrightarrow> h V' = h V)"

lemma reads_row_off_row: "reads_row r h \<Longrightarrow> r \<noteq> i \<Longrightarrow> off_row i h"
  unfolding reads_row_def off_row_def by blast

lemma reads_rowD: "reads_row r h \<Longrightarrow> (\<And>j. get2 V' r j = get2 V r j) \<Longrightarrow> h V' = h V"
  unfolding reads_row_def by blast

fun ok_order :: "(nat \<Rightarrow> nat) \<Rightarrow> nat list \<Rightarrow> bool" where
  "ok_order p [] = True"
| "ok_order p (i # earlier) =
     (i \<notin> set earlier \<and> p i \<noteq> i \<and> (\<forall>i'\<in>set earlier. p i' \<noteq> i) \<and> ok_order p earlier)"

definition sweep :: "(nat \<Rightarrow> nat \<Rightarrow> lattice \<Rightarrow> real) \<Rightarrow> nat list \<Rightarrow> lattice \<Rightarrow> lattice" where
  "sweep g rows V = fold (\<lambda>i V. fold (\<lambda>j V. set2 V i j (g i j V)) [0..<i + 1] V) rows V"

lemma sweep_snoc:
  "sweep g (rows @ [i]) V = fold (\<lambda>j V. set2 V i j (g i j V)) [0..<i + 1] (sweep g rows V)"
  by (simp add: sweep_def)

lemma sweep_rows:
  assumes sh: "shape V0 N"
    and g: "\<And>i j. reads_row (p i) (g i j)"
  shows "ok_order p rs \<Longrightarrow> (\<forall>i\<in>set rs. i < N) \<Longrightarrow>
         shape (sweep g (rev rs) V0) N \<and>
         (\<forall>i j. get2 (sweep g (rev rs) V0) i j =
                 (if i \<in> set rs \<and> j \<le> i then g i j (sweep g (rev rs) V0) else get2 V0 i j))"
proof (induction rs)
  case Nil
  show ?case using sh by (simp add: sweep_def)
next
  case (Cons i earlier)
  let ?W' = "sweep g (rev earlier) V0"
  let ?W = "sweep g (rev (i # earlier)) V0"
  from Cons have shW': "shape ?W' N"
    and IH: "\<And>i' j'. get2 ?W' i' j' =
               (if i' \<in> set earlier \<and> j' \<le> i' then g i' j' ?W' else get2 V0 i' j')"
    by simp_all
  from Cons.prems have iN: "i < N" and inew: "i \<notin> set earlier" and pi: "p i \<noteq> i"
    and pe: "\<And>i'. i' \<in> set earlier \<Longrightarrow> p i' \<noteq> i"
    by simp_all
  have W: "?W = fold (\<lambda>j V. set2 V i j (g i j V)) [0..<i + 1] ?W'"
    by (simp add: sweep_snoc)
  have off: "\<And>j. off_row i (g i j)"
    using g pi by (rule reads_row_off_row)
  have le: "i + 1 \<le> N" using iN by simp
  have rf: "shape ?W N \<and>
      (\<forall>i' j'. get2 ?W i' j' = (if i' = i \<and> j' < i + 1 then g i j' ?W' else get2 ?W' i' j'))"
    unfolding W using shW' iN le off by (rule row_fill)
  then have shW: "shape ?W N"
    and fill: "\<And>i' j'. get2 ?W i' j' = (if i' = i \<and> j' < i + 1 then g i j' ?W' else get2 ?W' i' j')"
    by blast+
  have row_eq: "\<And>r j. r \<noteq> i \<Longrightarrow> get2 ?W r j = get2 ?W' r j"
    by (subst fill) simp
  have keep: "h ?W = h ?W'" if "reads_row r h" "r \<noteq> i" for r and h :: "lattice \<Rightarrow> real"
    using that(1)
  proof (rule reads_rowD)
    fix j show "get2 ?W r j = get2 ?W' r j" using that(2) by (rule row_eq)
  qed
  have "get2 ?W i' j' = (if i' \<in> set (i # earlier) \<and> j' \<le> i' then g i' j' ?W else get2 V0 i' j')"
    for i' j'
  proof (cases "i' = i")
    case True
    then show ?thesis
      using fill [of i' j'] IH [of i j'] inew keep [OF g [of i j'] pi] by auto
  next
    case False
    then show ?thesis
      using fill [of i' j'] IH [of i' j'] keep [OF g [of i' j']] pe [of i'] by auto
  qed
  with shW show ?case by blast
qed

lemma ok_order_down: "ok_order (\<lambda>i. i + 1) [t..<m]"
proof (induction "m - t" arbitrary: t)
  case 0
  then show ?case by simp
next
  case (Suc k)
  then have "t < m" "k = m - Suc t" by simp_all
  with Suc.hyps(1) [of "Suc t"] show ?case
    by (simp add: upt_conv_Cons)
qed

lemma ok_order_up: "ok_order (\<lambda>i. i - 1) (rev [1..<m + 1])"
  by (induction m) auto

section \<open>The lattices, entry by entry\<close>

text \<open>
  Each lattice of the source is one sweep; its entries satisfy the assignment that wrote
  them, read on the finished array.
\<close>

lemma fold_from_one:
  assumes "\<And>j V. 1 \<le> j \<Longrightarrow> f' j V = f j V"
  shows "fold f [1..<i + 1] (f' 0 V) = fold f' [0..<i + 1] V"
proof -
  have "fold f' [1..<i + 1] W = fold f [1..<i + 1] W" for W
    by (rule fold_cong) (use assms in auto)
  moreover have "[0..<i + 1] = 0 # [1..<i + 1]"
    by (simp add: upt_conv_Cons)
  ultimately show ?thesis by simp
qed

lemma get2_map_map:
  "shape a N \<Longrightarrow> i < N \<Longrightarrow> j < N \<Longrightarrow> get2 (map (map f) a) i j = f (get2 a i j)"
  by (simp add: shape_def get2_def)

lemma shape_map_map: "shape a N \<Longrightarrow> shape (map (map f) a) N"
  by (simp add: shape_def)

definition lattice_entry :: "real \<Rightarrow> real \<Rightarrow> nat \<Rightarrow> nat \<Rightarrow> lattice \<Rightarrow> real" where
  "lattice_entry u d i j V = (if j = 0 then get2 V (i - 1) 0 * d else get2 V (i - 1) (j - 1) * u)"

lemma short_rate_sweep:
  "short_rate r_0 n u d =
     sweep (lattice_entry u d) [1..<n + 1] (set2 (zeros (n + 1) (n + 1)) 0 0 r_0)"
  unfolding short_rate_def sweep_def
proof (rule fold_cong [OF refl refl], rule ext)
  fix i :: nat and V :: lattice
  have "fold (\<lambda>j rate. set2 rate i j (get2 rate (i - 1) (j - 1) * u)) [1..<i + 1]
          ((\<lambda>j V. set2 V i j (lattice_entry u d i j V)) 0 V) =
        fold (\<lambda>j V. set2 V i j (lattice_entry u d i j V)) [0..<i + 1] V"
    by (rule fold_from_one) (simp add: lattice_entry_def)
  then show "fold (\<lambda>j rate. set2 rate i j (get2 rate (i - 1) (j - 1) * u)) [1..<i + 1]
          (set2 V i 0 (get2 V (i - 1) 0 * d)) =
        fold (\<lambda>j V. set2 V i j (lattice_entry u d i j V)) [0..<i + 1] V"
    by (simp add: lattice_entry_def)
qed

lemma stock_lattice_short_rate: "stock_lattice = short_rate"
  by (intro ext) (simp add: stock_lattice_def short_rate_def)

lemma reads_row_lattice_entry: "reads_row (i - 1) (lattice_entry u d i j)"
  by (simp add: reads_row_def lattice_entry_def)

lemma short_rate_rows:
  "shape (short_rate r_0 n u d) (n + 1) \<and>
   (\<forall>i j. get2 (short_rate r_0 n u d) i j =
      (if 1 \<le> i \<and> i \<le> n \<and> j \<le> i then lattice_entry u d i j (short_rate r_0 n u d)
       else get2 (set2 (zeros (n + 1) (n + 1)) 0 0 r_0) i j))"
proof -
  have sh: "shape (set2 (zeros (n + 1) (n + 1)) 0 0 r_0) (n + 1)"
    by (intro shape_set2 shape_zeros)
  have "shape (sweep (lattice_entry u d) (rev (rev [1..<n + 1])) (set2 (zeros (n + 1) (n + 1)) 0 0 r_0)) (n + 1) \<and>
   (\<forall>i j. get2 (sweep (lattice_entry u d) (rev (rev [1..<n + 1])) (set2 (zeros (n + 1) (n + 1)) 0 0 r_0)) i j =
      (if i \<in> set (rev [1..<n + 1]) \<and> j \<le> i
       then lattice_entry u d i j (sweep (lattice_entry u d) (rev (rev [1..<n + 1])) (set2 (zeros (n + 1) (n + 1)) 0 0 r_0))
       else get2 (set2 (zeros (n + 1) (n + 1)) 0 0 r_0) i j))"
    by (rule sweep_rows [OF sh reads_row_lattice_entry ok_order_up]) auto
  then show ?thesis
    by (simp add: short_rate_sweep) 
qed

lemma short_rate_shape: "shape (short_rate r_0 n u d) (n + 1)"
  using short_rate_rows by blast

lemma short_rate_closed:
  "i \<le> n \<Longrightarrow> j \<le> i \<Longrightarrow> get2 (short_rate r_0 n u d) i j = r_0 * u ^ j * d ^ (i - j)"
proof (induction i arbitrary: j)
  case 0
  have "shape (zeros (n + 1) (n + 1)) (n + 1)" by (rule shape_zeros)
  then show ?case
    using 0 short_rate_rows [of r_0 n u d] by (simp add: get2_set2)
next
  case (Suc i)
  have rec: "get2 (short_rate r_0 n u d) (Suc i) j = lattice_entry u d (Suc i) j (short_rate r_0 n u d)"
    using Suc.prems short_rate_rows [of r_0 n u d] by simp
  show ?case
  proof (cases j)
    case 0
    then show ?thesis
      using rec Suc.IH [of 0] Suc.prems by (simp add: lattice_entry_def)
  next
    case (Suc j')
    then show ?thesis
      using rec Suc.IH [of j'] Suc.prems by (simp add: lattice_entry_def Suc_diff_le)
  qed
qed

definition forward_entry :: "lattice \<Rightarrow> nat \<Rightarrow> nat \<Rightarrow> lattice \<Rightarrow> real" where
  "forward_entry s i j e =
     (if j = 0 then get2 e (i - 1) 0 / (2 * (1 + get2 s (i - 1) 0))
      else if i > j then
        get2 e (i - 1) (j - 1) / (2 * (1 + get2 s (i - 1) (j - 1)))
        + get2 e (i - 1) j / (2 * (1 + get2 s (i - 1) j))
      else get2 e (i - 1) (j - 1) / (2 * (1 + get2 s (i - 1) (j - 1))))"

definition first_column :: "lattice \<Rightarrow> nat \<Rightarrow> lattice" where
  "first_column s n =
     fold (\<lambda>i e_prices. set2 e_prices i 0 (get2 e_prices (i - 1) 0 / (2 * (1 + get2 s (i - 1) 0))))
       [1..<n + 1] (set2 (zeros (n + 1) (n + 1)) 0 0 1)"

lemma column_fill:
  "shape V N \<Longrightarrow> (\<forall>i\<in>set xs. i < N) \<Longrightarrow>
   shape (fold (\<lambda>i e. set2 e i 0 (h i e)) xs V) N \<and>
   (\<forall>i j. j \<noteq> 0 \<or> i \<notin> set xs \<longrightarrow> get2 (fold (\<lambda>i e. set2 e i 0 (h i e)) xs V) i j = get2 V i j)"
proof (induction xs arbitrary: V)
  case Nil
  then show ?case by simp
next
  case (Cons x xs)
  have sh: "shape (set2 V x 0 (h x V)) N"
    using Cons.prems(1) by (rule shape_set2)
  have xN: "x < N" and zN: "0 < N" using Cons.prems(2) by auto
  from Cons.IH [OF sh] Cons.prems(2) show ?case
    by (auto simp: get2_set2 [OF Cons.prems(1) xN zN])
qed

lemma unit_lattice:
  "i < N \<Longrightarrow> j < N \<Longrightarrow> get2 (set2 (zeros N N) 0 0 v) i j = (if i = 0 \<and> j = 0 then v else 0)"
  using get2_set2 [OF shape_zeros, of 0 N 0 v i j] by (auto simp: get2_zeros)

lemma first_column:
  "shape (first_column s n) (n + 1) \<and>
   (\<forall>i j. i \<le> n \<and> j \<le> n \<and> (j \<noteq> 0 \<or> i = 0) \<longrightarrow>
      get2 (first_column s n) i j = (if i = 0 \<and> j = 0 then 1 else 0))"
proof -
  let ?V = "set2 (zeros (n + 1) (n + 1)) 0 0 1"
  have sh: "shape ?V (n + 1)" by (intro shape_set2 shape_zeros)
  have "shape (first_column s n) (n + 1) \<and>
   (\<forall>i j. j \<noteq> 0 \<or> i \<notin> set [1..<n + 1] \<longrightarrow> get2 (first_column s n) i j = get2 ?V i j)"
    unfolding first_column_def by (rule column_fill [OF sh]) auto
  then show ?thesis
    using unit_lattice [of _ "n + 1" _ 1] by auto
qed

lemma elementary_prices_sweep:
  "elementary_prices r_0 n u d =
     sweep (forward_entry (map (map (\<lambda>x. x / 100)) (short_rate r_0 n u d))) [1..<n + 1]
       (first_column (map (map (\<lambda>x. x / 100)) (short_rate r_0 n u d)) n)"
  unfolding elementary_prices_def Let_def first_column_def [symmetric] sweep_def
proof (rule fold_cong [OF refl refl], rule ext)
  fix i :: nat and V :: lattice
  let ?s = "map (map (\<lambda>x. x / 100)) (short_rate r_0 n u d)"
  let ?f = "\<lambda>j e_prices.
              if i > j then
                set2 e_prices i j
                  (get2 e_prices (i - 1) (j - 1) / (2 * (1 + get2 ?s (i - 1) (j - 1)))
                   + get2 e_prices (i - 1) j / (2 * (1 + get2 ?s (i - 1) j)))
              else
                set2 e_prices i j
                  (get2 e_prices (i - 1) (j - 1) / (2 * (1 + get2 ?s (i - 1) (j - 1))))"
  have "fold ?f [1..<i + 1] ((\<lambda>j V. set2 V i j (forward_entry ?s i j V)) 0 V) =
        fold (\<lambda>j V. set2 V i j (forward_entry ?s i j V)) [0..<i + 1] V"
    by (rule fold_from_one) (simp add: forward_entry_def)
  then show "fold ?f [1..<i + 1] (set2 V i 0 (get2 V (i - 1) 0 / (2 * (1 + get2 ?s (i - 1) 0)))) =
        fold (\<lambda>j V. set2 V i j (forward_entry ?s i j V)) [0..<i + 1] V"
    by (simp add: forward_entry_def)
qed

lemma reads_row_forward_entry: "reads_row (i - 1) (forward_entry s i j)"
  by (simp add: reads_row_def forward_entry_def)

lemma elementary_prices_rows:
  fixes r_0 n u d
  defines "s \<equiv> map (map (\<lambda>x. x / 100)) (short_rate r_0 n u d)"
  defines "e \<equiv> elementary_prices r_0 n u d"
  shows "shape e (n + 1) \<and>
   (\<forall>i j. get2 e i j =
      (if 1 \<le> i \<and> i \<le> n \<and> j \<le> i then forward_entry s i j e else get2 (first_column s n) i j))"
proof -
  have sh: "shape (first_column s n) (n + 1)"
    using first_column by blast
  have "shape (sweep (forward_entry s) (rev (rev [1..<n + 1])) (first_column s n)) (n + 1) \<and>
   (\<forall>i j. get2 (sweep (forward_entry s) (rev (rev [1..<n + 1])) (first_column s n)) i j =
      (if i \<in> set (rev [1..<n + 1]) \<and> j \<le> i
       then forward_entry s i j (sweep (forward_entry s) (rev (rev [1..<n + 1])) (first_column s n))
       else get2 (first_column s n) i j))"
    by (rule sweep_rows [OF sh reads_row_forward_entry ok_order_up]) auto
  then show ?thesis
    by (simp add: elementary_prices_sweep e_def s_def)
qed

lemma elementary_prices_shape: "shape (elementary_prices r_0 n u d) (n + 1)"
  using elementary_prices_rows by blast

lemma scaled_rate:
  "i \<le> n \<Longrightarrow> j \<le> n \<Longrightarrow>
   get2 (map (map (\<lambda>x. x / 100)) (short_rate r_0 n u d)) i j = get2 (short_rate r_0 n u d) i j / 100"
  using get2_map_map [OF short_rate_shape, of i n j "\<lambda>x. x / 100" r_0 u d] by simp

lemma row_sum:
  "shape a N \<Longrightarrow> k < N \<Longrightarrow> (map sum_list a) ! k = (\<Sum>j<N. get2 a k j)"
  by (simp add: shape_def get2_def sum_list_sum_nth atLeast0LessThan)

definition swap_entry :: "real \<Rightarrow> lattice \<Rightarrow> nat \<Rightarrow> nat \<Rightarrow> lattice \<Rightarrow> real" where
  "swap_entry k rate i j V =
     (1 / (1 + get2 rate i j)) *
       ((1 / 2) * get2 V (i + 1) (j + 1) + (1 - 1 / 2) * get2 V (i + 1) j + (get2 rate i j - k / 100))"

lemma foldE_sweep:
  assumes "\<And>i j V. i \<in> set rows \<Longrightarrow> j \<le> i \<Longrightarrow> step i j V = Inr (set2 V i j (g i j V))"
  shows "foldE (\<lambda>i. foldE (step i) [0..<i + 1]) rows V = Inr (sweep g rows V)"
  unfolding sweep_def
proof (rule foldE_pure)
  fix i V assume "i \<in> set rows"
  then show "foldE (step i) [0..<i + 1] V = Inr (fold (\<lambda>j V. set2 V i j (g i j V)) [0..<i + 1] V)"
    by (intro foldE_pure assms) auto
qed

lemma swap_price_loops:
  "foldE (\<lambda>i. foldE (swap_step k rate i) [0..<i + 1]) rows V = Inr (sweep (swap_entry k rate) rows V)"
  by (rule foldE_sweep) (simp add: swap_step_def swap_entry_def)

lemma elementary_prices_origin: "get2 (elementary_prices r_0 n u d) 0 0 = 1"
  using elementary_prices_rows [of r_0 n u d]
    first_column [of "map (map (\<lambda>x. x / 100)) (short_rate r_0 n u d)" n]
  by simp

lemma elementary_prices_entry:
  assumes "1 \<le> i" "i \<le> n" "j \<le> i"
  shows "get2 (elementary_prices r_0 n u d) i j =
    (if j = 0 then 0
     else get2 (elementary_prices r_0 n u d) (i - 1) (j - 1)
            / (2 * (1 + get2 (short_rate r_0 n u d) (i - 1) (j - 1) / 100)))
    + (if j < i
       then get2 (elementary_prices r_0 n u d) (i - 1) j
              / (2 * (1 + get2 (short_rate r_0 n u d) (i - 1) j / 100))
       else 0)"
proof -
  let ?s = "map (map (\<lambda>x. x / 100)) (short_rate r_0 n u d)"
  let ?e = "elementary_prices r_0 n u d"
  have sr: "get2 ?s (i - 1) (j - 1) = get2 (short_rate r_0 n u d) (i - 1) (j - 1) / 100"
    by (rule scaled_rate) (use assms in auto)
  have sr0: "get2 ?s (i - 1) 0 = get2 (short_rate r_0 n u d) (i - 1) 0 / 100"
    by (rule scaled_rate) (use assms in auto)
  have sr': "j < i \<Longrightarrow> get2 ?s (i - 1) j = get2 (short_rate r_0 n u d) (i - 1) j / 100"
    by (rule scaled_rate) (use assms in auto)
  have "get2 ?e i j = forward_entry ?s i j ?e"
    using elementary_prices_rows [of r_0 n u d] assms by simp
  then show ?thesis
    unfolding forward_entry_def sr sr0 using sr' assms by auto
qed

lemma sum_shift_pair:
  fixes a :: "nat \<Rightarrow> real"
  shows "(\<Sum>j\<le>Suc k. (if j = 0 then 0 else a (j - 1)) + (if j < Suc k then a j else 0)) = 2 * (\<Sum>j\<le>k. a j)"
proof -
  have "(\<Sum>j\<le>Suc k. (if j = 0 then 0 else a (j - 1))) = (\<Sum>j\<le>k. a j)"
    by (subst sum.atMost_Suc_shift) simp
  moreover have "(\<Sum>j\<le>Suc k. (if j < Suc k then a j else 0)) = (\<Sum>j\<le>k. a j)"
    by (simp add: less_Suc_eq_le)
  ultimately show ?thesis
    by (simp add: sum.distrib)
qed

lemma twice_half: "2 * (x / (2 * y)) = x / (y::real)"
  by simp

lemma row_sum_step:
  assumes "k < n"
  shows "(\<Sum>j\<le>Suc k. get2 (elementary_prices r_0 n u d) (Suc k) j) =
         (\<Sum>j\<le>k. get2 (elementary_prices r_0 n u d) k j / (1 + get2 (short_rate r_0 n u d) k j / 100))"
proof -
  let ?e = "elementary_prices r_0 n u d"
  let ?a = "\<lambda>j. get2 ?e k j / (2 * (1 + get2 (short_rate r_0 n u d) k j / 100))"
  have "(\<Sum>j\<le>Suc k. get2 ?e (Suc k) j) =
        (\<Sum>j\<le>Suc k. (if j = 0 then 0 else ?a (j - 1)) + (if j < Suc k then ?a j else 0))"
    by (rule sum.cong [OF refl]) (use assms elementary_prices_entry [of "Suc k" n _ r_0 u d] in simp)
  also have "\<dots> = 2 * (\<Sum>j\<le>k. ?a j)"
    by (rule sum_shift_pair)
  also have "\<dots> = (\<Sum>j\<le>k. 2 * ?a j)"
    by (simp only: sum_distrib_left)
  also have "\<dots> = (\<Sum>j\<le>k. get2 ?e k j / (1 + get2 (short_rate r_0 n u d) k j / 100))"
    by (rule sum.cong [OF refl]) (rule twice_half)
  finally show ?thesis .
qed

lemma elementary_prices_nonneg:
  assumes rates: "\<And>i j. j \<le> i \<Longrightarrow> i \<le> n \<Longrightarrow> 0 \<le> get2 (short_rate r_0 n u d) i j"
  shows "i \<le> n \<Longrightarrow> j \<le> i \<Longrightarrow> 0 \<le> get2 (elementary_prices r_0 n u d) i j"
proof (induction i arbitrary: j)
  case 0
  then show ?case by (simp add: elementary_prices_origin)
next
  case (Suc i)
  have 1: "0 \<le> get2 (elementary_prices r_0 n u d) i (j - 1)
            / (2 * (1 + get2 (short_rate r_0 n u d) i (j - 1) / 100))" if "j \<noteq> 0"
    using Suc.IH [of "j - 1"] rates [of "j - 1" i] Suc.prems that by simp
  have 2: "0 \<le> get2 (elementary_prices r_0 n u d) i j
            / (2 * (1 + get2 (short_rate r_0 n u d) i j / 100))" if "j < Suc i"
    using Suc.IH [of j] rates [of j i] Suc.prems that by simp
  show ?case
    using elementary_prices_entry [of "Suc i" n j r_0 u d] Suc.prems 1 2 by auto
qed

lemma row_sum_decreasing:
  assumes rates: "\<And>i j. j \<le> i \<Longrightarrow> i \<le> n \<Longrightarrow> 0 \<le> get2 (short_rate r_0 n u d) i j"
    and "k < n"
  shows "(\<Sum>j\<le>Suc k. get2 (elementary_prices r_0 n u d) (Suc k) j)
         \<le> (\<Sum>j\<le>k. get2 (elementary_prices r_0 n u d) k j)"
  unfolding row_sum_step [OF \<open>k < n\<close>]
proof (rule sum_mono)
  fix j assume "j \<in> {..k}"
  then have j: "j \<le> k" by simp
  have e: "0 \<le> get2 (elementary_prices r_0 n u d) k j"
    using elementary_prices_nonneg [OF rates, of k j] j \<open>k < n\<close> by simp
  have r: "0 \<le> get2 (short_rate r_0 n u d) k j"
    using rates [of j k] j \<open>k < n\<close> by simp
  have "get2 (elementary_prices r_0 n u d) k j / (1 + get2 (short_rate r_0 n u d) k j / 100)
        \<le> get2 (elementary_prices r_0 n u d) k j / 1"
    by (rule divide_left_mono) (use e r in auto)
  then show "get2 (elementary_prices r_0 n u d) k j / (1 + get2 (short_rate r_0 n u d) k j / 100)
        \<le> get2 (elementary_prices r_0 n u d) k j" by simp
qed

lemma row_sum_antimono:
  assumes rates: "\<And>i j. j \<le> i \<Longrightarrow> i \<le> n \<Longrightarrow> 0 \<le> get2 (short_rate r_0 n u d) i j"
  shows "k \<le> k' \<Longrightarrow> k' \<le> n \<Longrightarrow>
         (\<Sum>j\<le>k'. get2 (elementary_prices r_0 n u d) k' j)
         \<le> (\<Sum>j\<le>k. get2 (elementary_prices r_0 n u d) k j)"
proof (induction k' rule: dec_induct)
  case base
  show ?case by simp
next
  case (step m)
  have "(\<Sum>j\<le>Suc m. get2 (elementary_prices r_0 n u d) (Suc m) j)
        \<le> (\<Sum>j\<le>m. get2 (elementary_prices r_0 n u d) m j)"
    by (rule row_sum_decreasing [OF rates]) (use step.prems in auto)
  with step show ?case by simp
qed

lemma elementary_prices_size:
  "i \<le> n \<Longrightarrow> i \<le> m \<Longrightarrow> j \<le> i \<Longrightarrow>
   get2 (elementary_prices r_0 n u d) i j = get2 (elementary_prices r_0 m u d) i j"
proof (induction i arbitrary: j)
  case 0
  then show ?case by (simp add: elementary_prices_origin)
next
  case (Suc i)
  have rate: "get2 (short_rate r_0 n u d) i j' = get2 (short_rate r_0 m u d) i j'" if "j' \<le> i" for j'
    using that Suc.prems by (simp add: short_rate_closed)
  have "get2 (elementary_prices r_0 n u d) (Suc i) j =
    (if j = 0 then 0
     else get2 (elementary_prices r_0 m u d) i (j - 1)
            / (2 * (1 + get2 (short_rate r_0 m u d) i (j - 1) / 100)))
    + (if j < Suc i
       then get2 (elementary_prices r_0 m u d) i j
              / (2 * (1 + get2 (short_rate r_0 m u d) i j / 100))
       else 0)"
    using elementary_prices_entry [of "Suc i" n j r_0 u d] Suc.prems
      Suc.IH [of "j - 1"] Suc.IH [of j] rate [of "j - 1"] rate [of j]
    by auto
  also have "\<dots> = get2 (elementary_prices r_0 m u d) (Suc i) j"
    using elementary_prices_entry [of "Suc i" m j r_0 u d] Suc.prems by simp
  finally show ?case .
qed

lemma zcb_price_forward_row:
  assumes "k \<le> n"
  shows "zcb_price_forward k r_0 u d fv = fv * (\<Sum>j\<le>k. get2 (elementary_prices r_0 n u d) k j)"
proof -
  have "(map sum_list (elementary_prices r_0 k u d)) ! k = (\<Sum>j<k + 1. get2 (elementary_prices r_0 k u d) k j)"
    by (rule row_sum [OF elementary_prices_shape]) simp
  also have "\<dots> = (\<Sum>j\<le>k. get2 (elementary_prices r_0 k u d) k j)"
    by (simp add: lessThan_Suc_atMost)
  also have "\<dots> = (\<Sum>j\<le>k. get2 (elementary_prices r_0 n u d) k j)"
    by (rule sum.cong [OF refl]) (use assms in \<open>simp add: elementary_prices_size [of k k n]\<close>)
  finally show ?thesis
    by (simp add: zcb_price_forward_def)
qed

lemma flat_rate: "i \<le> n \<Longrightarrow> j \<le> i \<Longrightarrow> get2 (short_rate r n 1 1) i j = r"
  by (simp add: short_rate_closed)

lemma flat_row_sum:
  "k \<le> n \<Longrightarrow> (\<Sum>j\<le>k. get2 (elementary_prices r n 1 1) k j) = (1 / (1 + r / 100)) ^ k"
proof (induction k)
  case 0
  show ?case by (simp add: elementary_prices_origin)
next
  case (Suc k)
  then have k: "k < n" by simp
  have "(\<Sum>j\<le>Suc k. get2 (elementary_prices r n 1 1) (Suc k) j) =
        (\<Sum>j\<le>k. get2 (elementary_prices r n 1 1) k j / (1 + get2 (short_rate r n 1 1) k j / 100))"
    by (rule row_sum_step [OF k])
  also have "\<dots> = (\<Sum>j\<le>k. get2 (elementary_prices r n 1 1) k j / (1 + r / 100))"
    by (rule sum.cong [OF refl]) (use k in \<open>simp add: flat_rate\<close>)
  also have "\<dots> = (\<Sum>j\<le>k. get2 (elementary_prices r n 1 1) k j) / (1 + r / 100)"
    by (simp only: sum_divide_distrib)
  also have "\<dots> = (1 / (1 + r / 100)) ^ Suc k"
    using Suc.IH k by simp
  finally show ?case .
qed

lemma zcb_price_forward_flat: "zcb_price_forward k r 1 1 fv = fv * (1 / (1 + r / 100)) ^ k"
  using zcb_price_forward_row [of k k r 1 1 fv] flat_row_sum [of k k r] by simp

lemma list_fill:
  "hi \<le> length a \<Longrightarrow>
   length (fold (\<lambda>i a. a[i := h i]) [lo..<hi] a) = length a \<and>
   (\<forall>k. k < length a \<longrightarrow>
      fold (\<lambda>i a. a[i := h i]) [lo..<hi] a ! k = (if lo \<le> k \<and> k < hi then h k else a ! k))"
proof (induction hi)
  case 0
  show ?case by simp
next
  case (Suc hi)
  show ?case
  proof (cases "lo \<le> hi")
    case True
    with Suc show ?thesis by (auto simp: nth_list_update)
  next
    case False
    then show ?thesis by auto
  qed
qed

lemma list_fill_length:
  "hi \<le> length a \<Longrightarrow> length (fold (\<lambda>i a. a[i := h i]) [lo..<hi] a) = length a"
  using list_fill by blast

lemma list_fill_nth:
  "hi \<le> length a \<Longrightarrow> lo \<le> k \<Longrightarrow> k < hi \<Longrightarrow> fold (\<lambda>i a. a[i := h i]) [lo..<hi] a ! k = h k"
  using list_fill [of hi a h lo] by simp

lemma term_structure_entry:
  assumes "1 \<le> k" "k \<le> n"
  shows "term_structure r_0 n u d ! (k - 1) = (100 / zcb_price_forward k r_0 u d 100) powr (1 / real k) - 1"
proof -
  let ?zcb = "fold (\<lambda>i zcb_price_arr. zcb_price_arr[i := zcb_price_forward i r_0 u d 100])
                [1..<n + 1] (replicate (n + 1) 0)"
  let ?spot = "fold (\<lambda>i spot_rates. spot_rates[i := (100 / ?zcb ! i) powr (1 / real i) - 1])
                 [1..<n + 1] (replicate (n + 1) 0)"
  have z: "?zcb ! k = zcb_price_forward k r_0 u d 100"
    by (rule list_fill_nth) (use assms in simp_all)
  have s: "?spot ! k = (100 / ?zcb ! k) powr (1 / real k) - 1"
    by (rule list_fill_nth) (use assms in simp_all)
  have l: "length ?spot = n + 1"
    by (subst list_fill_length) simp_all
  have "term_structure r_0 n u d ! (k - 1) = ?spot ! (1 + (k - 1))"
    unfolding term_structure_def Let_def by (rule nth_drop) (use l in simp)
  also have "1 + (k - 1) = k"
    using assms by simp
  finally show ?thesis
    unfolding s z .
qed

lemma term_structure_length: "length (term_structure r_0 n u d) = n"
proof -
  have "length (fold (\<lambda>i spot_rates. spot_rates[i := h i]) [1..<n + 1] (replicate (n + 1) 0)) = n + 1"
    for h :: "nat \<Rightarrow> real"
    by (subst list_fill_length) simp_all
  then show ?thesis
    unfolding term_structure_def Let_def length_drop by simp
qed

lemma root_of_power:
  assumes "0 < x" "1 \<le> k"
  shows "(x ^ k) powr (1 / real k) = (x::real)"
proof -
  have "(x ^ k) powr (1 / real k) = (x powr real k) powr (1 / real k)"
    using assms by (simp add: powr_realpow)
  also have "\<dots> = x powr (real k * (1 / real k))"
    by (rule powr_powr)
  also have "\<dots> = x"
    using assms by simp
  finally show ?thesis .
qed

lemma flat_spot_rate:
  assumes "0 < 1 + r / 100" "1 \<le> k" "k \<le> n"
  shows "term_structure r n 1 1 ! (k - 1) = r / 100"
proof -
  have "100 / zcb_price_forward k r 1 1 100 = (1 + r / 100) ^ k"
    using assms(1) by (simp add: zcb_price_forward_flat power_divide)
  then have "term_structure r n 1 1 ! (k - 1) = ((1 + r / 100) ^ k) powr (1 / real k) - 1"
    using assms by (simp only: term_structure_entry)
  also have "\<dots> = (1 + r / 100) - 1"
    using assms by (simp only: root_of_power)
  finally show ?thesis by simp
qed

section \<open>The option lattice, entry by entry\<close>

text \<open>
  \<open>euro_lattice\<close> and \<open>amer_lattice\<close> are the array \<open>option_price\<close> at the return statement of
  \<open>binomial_tree\<close> for the styles \<open>'E'\<close> and \<open>'A'\<close>, when no division fails.
\<close>

definition payoff :: "string \<Rightarrow> real \<Rightarrow> real \<Rightarrow> real" where
  "payoff PutCall K x =
     (if PutCall = ''Call'' then max 0 (x - K) else if PutCall = ''Put'' then max 0 (K - x) else 0)"

definition euro_entry :: "real \<Rightarrow> real \<Rightarrow> nat \<Rightarrow> nat \<Rightarrow> lattice \<Rightarrow> real" where
  "euro_entry r_f q i j V = (1 / (1 + r_f)) * (q * get2 V (i + 1) (j + 1) + (1 - q) * get2 V (i + 1) j)"

definition amer_entry :: "string \<Rightarrow> real \<Rightarrow> real \<Rightarrow> real \<Rightarrow> lattice \<Rightarrow> nat \<Rightarrow> nat \<Rightarrow> lattice \<Rightarrow> real" where
  "amer_entry PutCall K r_f q S i j V =
     max 0 (max (if PutCall = ''Put'' then K - get2 S i j else get2 S i j - K) (euro_entry r_f q i j V))"

definition terminal_lattice :: "string \<Rightarrow> real \<Rightarrow> nat \<Rightarrow> lattice \<Rightarrow> lattice" where
  "terminal_lattice PutCall K m S = fold (terminal_payoff PutCall K m S) [0..<m + 1] (zeros (m + 1) (m + 1))"

lemma fold_skip: "fold (\<lambda>i V. V) xs V = V"
  by (induction xs) simp_all

lemma off_row_const: "off_row i (\<lambda>V. c)"
  by (simp add: off_row_def)

lemma terminal_lattice:
  "shape (terminal_lattice PutCall K m S) (m + 1) \<and>
   (\<forall>i j. i \<le> m \<and> j \<le> m \<longrightarrow>
      get2 (terminal_lattice PutCall K m S) i j = (if i = m then payoff PutCall K (get2 S m j) else 0))"
proof -
  have fill: "shape (fold (\<lambda>j V. set2 V m j (g j)) [0..<m + 1] (zeros (m + 1) (m + 1))) (m + 1) \<and>
      (\<forall>i' j'. get2 (fold (\<lambda>j V. set2 V m j (g j)) [0..<m + 1] (zeros (m + 1) (m + 1))) i' j' =
         (if i' = m \<and> j' < m + 1 then g j' else get2 (zeros (m + 1) (m + 1)) i' j'))"
    for g :: "nat \<Rightarrow> real"
    by (rule row_fill [OF shape_zeros _ _ off_row_const]) simp_all
  consider "PutCall = ''Call''" | "PutCall = ''Put''" | "PutCall \<noteq> ''Call''" "PutCall \<noteq> ''Put''"
    by blast
  then show ?thesis
  proof cases
    case 1
    then have "terminal_lattice PutCall K m S =
        fold (\<lambda>j V. set2 V m j (max 0 (get2 S m j - K))) [0..<m + 1] (zeros (m + 1) (m + 1))"
      unfolding terminal_lattice_def terminal_payoff_def by simp
    with fill [of "\<lambda>j. max 0 (get2 S m j - K)"] 1 show ?thesis
      by (auto simp: payoff_def get2_zeros)
  next
    case 2
    then have "terminal_lattice PutCall K m S =
        fold (\<lambda>j V. set2 V m j (max 0 (K - get2 S m j))) [0..<m + 1] (zeros (m + 1) (m + 1))"
      unfolding terminal_lattice_def terminal_payoff_def by simp
    with fill [of "\<lambda>j. max 0 (K - get2 S m j)"] 2 show ?thesis
      by (auto simp: payoff_def get2_zeros)
  next
    case 3
    then have "terminal_lattice PutCall K m S = zeros (m + 1) (m + 1)"
      unfolding terminal_lattice_def terminal_payoff_def by (simp add: fold_skip)
    with 3 shape_zeros [of "m + 1"] show ?thesis
      by (auto simp: payoff_def get2_zeros)
  qed
qed

lemma european_loops:
  "1 + r_f \<noteq> 0 \<Longrightarrow>
   foldE (\<lambda>i. foldE (european_step r_f q i) [0..<i + 1]) rows V = Inr (sweep (euro_entry r_f q) rows V)"
  by (rule foldE_sweep) (simp add: european_step_def euro_entry_def py_div_def bindE_def)

lemma american_loops:
  "1 + r_f \<noteq> 0 \<Longrightarrow> PutCall = ''Call'' \<or> PutCall = ''Put'' \<Longrightarrow>
   foldE (\<lambda>i. foldE (american_step PutCall K r_f q S i) [0..<i + 1]) rows V =
   Inr (sweep (amer_entry PutCall K r_f q S) rows V)"
  by (rule foldE_sweep)
    (auto simp: american_step_def amer_entry_def euro_entry_def py_div_def bindE_def)

lemma american_loops_skip:
  assumes "PutCall \<noteq> ''Call''" "PutCall \<noteq> ''Put''"
  shows "foldE (\<lambda>i. foldE (american_step PutCall K r_f q S i) [0..<i + 1]) rows V = Inr V"
proof -
  have "foldE (\<lambda>i. foldE (american_step PutCall K r_f q S i) [0..<i + 1]) rows V =
        Inr (fold (\<lambda>i V. V) rows V)"
  proof (rule foldE_pure)
    fix i V
    have "foldE (american_step PutCall K r_f q S i) [0..<i + 1] V = Inr (fold (\<lambda>j V. V) [0..<i + 1] V)"
      by (rule foldE_pure) (use assms in \<open>simp add: american_step_def\<close>)
    then show "foldE (american_step PutCall K r_f q S i) [0..<i + 1] V = Inr V"
      by (simp only: fold_skip)
  qed
  then show ?thesis
    by (simp only: fold_skip)
qed

lemma binomial_tree_unfold:
  assumes "u \<noteq> d"
  shows "binomial_tree (int m) r_f S_0 K u d PutCall Type =
     bindE
       (if Type = ''E'' then
          foldE (\<lambda>i. foldE (european_step r_f (((1 + r_f) - d) / (u - d)) i) [0..<i + 1]) (rev [0..<m])
            (terminal_lattice PutCall K m (stock_lattice S_0 m u d))
        else if Type = ''A'' then
          foldE (\<lambda>i. foldE (american_step PutCall K r_f (((1 + r_f) - d) / (u - d))
                   (stock_lattice S_0 m u d) i) [0..<i + 1])
            (rev [0..<m]) (terminal_lattice PutCall K m (stock_lattice S_0 m u d))
        else Inr (terminal_lattice PutCall K m (stock_lattice S_0 m u d)))
       (\<lambda>option_price. Inr (get2 option_price 0 0))"
  using assms unfolding binomial_tree_def terminal_lattice_def Let_def py_div_def bindE_def
  by simp

lemma backward_rows:
  assumes sh: "shape T (m + 1)" and g: "\<And>i j. reads_row (i + 1) (g i j)"
  shows "shape (sweep g (rev [0..<m]) T) (m + 1) \<and>
         (\<forall>i j. get2 (sweep g (rev [0..<m]) T) i j =
            (if i < m \<and> j \<le> i then g i j (sweep g (rev [0..<m]) T) else get2 T i j))"
proof -
  have "shape (sweep g (rev [0..<m]) T) (m + 1) \<and>
         (\<forall>i j. get2 (sweep g (rev [0..<m]) T) i j =
            (if i \<in> set [0..<m] \<and> j \<le> i then g i j (sweep g (rev [0..<m]) T) else get2 T i j))"
    by (rule sweep_rows [OF sh g ok_order_down]) auto
  then show ?thesis by simp
qed

lemma reads_row_euro_entry: "reads_row (i + 1) (euro_entry r_f q i j)"
  by (simp add: reads_row_def euro_entry_def)

lemma reads_row_amer_entry: "reads_row (i + 1) (amer_entry PutCall K r_f q S i j)"
  by (simp add: reads_row_def amer_entry_def euro_entry_def)

definition euro_lattice :: "nat \<Rightarrow> real \<Rightarrow> real \<Rightarrow> real \<Rightarrow> real \<Rightarrow> real \<Rightarrow> string \<Rightarrow> lattice" where
  "euro_lattice m r_f S_0 K u d PutCall =
     sweep (euro_entry r_f (((1 + r_f) - d) / (u - d))) (rev [0..<m])
       (terminal_lattice PutCall K m (stock_lattice S_0 m u d))"

definition amer_lattice :: "nat \<Rightarrow> real \<Rightarrow> real \<Rightarrow> real \<Rightarrow> real \<Rightarrow> real \<Rightarrow> string \<Rightarrow> lattice" where
  "amer_lattice m r_f S_0 K u d PutCall =
     sweep (amer_entry PutCall K r_f (((1 + r_f) - d) / (u - d)) (stock_lattice S_0 m u d)) (rev [0..<m])
       (terminal_lattice PutCall K m (stock_lattice S_0 m u d))"

lemma binomial_tree_european:
  "u \<noteq> d \<Longrightarrow> 1 + r_f \<noteq> 0 \<Longrightarrow>
   binomial_tree (int m) r_f S_0 K u d PutCall ''E'' = Inr (get2 (euro_lattice m r_f S_0 K u d PutCall) 0 0)"
  unfolding binomial_tree_unfold european_loops euro_lattice_def bindE_def by simp

lemma binomial_tree_american:
  "u \<noteq> d \<Longrightarrow> 1 + r_f \<noteq> 0 \<Longrightarrow> PutCall = ''Call'' \<or> PutCall = ''Put'' \<Longrightarrow>
   binomial_tree (int m) r_f S_0 K u d PutCall ''A'' = Inr (get2 (amer_lattice m r_f S_0 K u d PutCall) 0 0)"
  unfolding binomial_tree_unfold american_loops amer_lattice_def bindE_def by simp

lemma euro_lattice_rows:
  "get2 (euro_lattice m r_f S_0 K u d PutCall) i j =
     (if i < m \<and> j \<le> i
      then euro_entry r_f (((1 + r_f) - d) / (u - d)) i j (euro_lattice m r_f S_0 K u d PutCall)
      else get2 (terminal_lattice PutCall K m (stock_lattice S_0 m u d)) i j)"
  unfolding euro_lattice_def
  by (rule backward_rows [OF terminal_lattice [THEN conjunct1] reads_row_euro_entry,
        THEN conjunct2, rule_format])

lemma amer_lattice_rows:
  "get2 (amer_lattice m r_f S_0 K u d PutCall) i j =
     (if i < m \<and> j \<le> i
      then amer_entry PutCall K r_f (((1 + r_f) - d) / (u - d)) (stock_lattice S_0 m u d) i j
             (amer_lattice m r_f S_0 K u d PutCall)
      else get2 (terminal_lattice PutCall K m (stock_lattice S_0 m u d)) i j)"
  unfolding amer_lattice_def
  by (rule backward_rows [OF terminal_lattice [THEN conjunct1] reads_row_amer_entry,
        THEN conjunct2, rule_format])

lemma american_dominates:
  assumes r: "0 < 1 + r_f" and q0: "0 \<le> ((1 + r_f) - d) / (u - d)" and q1: "((1 + r_f) - d) / (u - d) \<le> 1"
  shows "i \<le> m \<Longrightarrow> \<forall>j\<le>i. get2 (euro_lattice m r_f S_0 K u d PutCall) i j
                           \<le> get2 (amer_lattice m r_f S_0 K u d PutCall) i j"
proof (induction i rule: inc_induct)
  case base
  show ?case by (simp add: euro_lattice_rows amer_lattice_rows)
next
  case (step i)
  let ?q = "((1 + r_f) - d) / (u - d)"
  let ?E = "euro_lattice m r_f S_0 K u d PutCall"
  let ?A = "amer_lattice m r_f S_0 K u d PutCall"
  show ?case
  proof (intro allI impI)
    fix j assume j: "j \<le> i"
    have up: "get2 ?E (i + 1) (j + 1) \<le> get2 ?A (i + 1) (j + 1)"
      and down: "get2 ?E (i + 1) j \<le> get2 ?A (i + 1) j"
      using step.IH j by simp_all
    have "?q * get2 ?E (i + 1) (j + 1) + (1 - ?q) * get2 ?E (i + 1) j
          \<le> ?q * get2 ?A (i + 1) (j + 1) + (1 - ?q) * get2 ?A (i + 1) j"
      by (intro add_mono mult_left_mono up down q0) (use q1 in simp)
    then have "euro_entry r_f ?q i j ?E \<le> euro_entry r_f ?q i j ?A"
      unfolding euro_entry_def using r by (intro mult_left_mono) simp_all
    also have "\<dots> \<le> amer_entry PutCall K r_f ?q (stock_lattice S_0 m u d) i j ?A"
      by (simp add: amer_entry_def)
    finally show "get2 ?E i j \<le> get2 ?A i j"
      using step.hyps j by (simp add: euro_lattice_rows [of m _ _ _ _ _ _ i] amer_lattice_rows [of m _ _ _ _ _ _ i])
  qed
qed

lemma euro_lattice_zero:
  assumes "PutCall \<noteq> ''Call''" "PutCall \<noteq> ''Put''"
  shows "i \<le> m \<Longrightarrow> \<forall>j\<le>i. get2 (euro_lattice m r_f S_0 K u d PutCall) i j = 0"
proof (induction i rule: inc_induct)
  case base
  show ?case
    using assms terminal_lattice [of PutCall K m "stock_lattice S_0 m u d"]
    by (simp add: euro_lattice_rows payoff_def)
next
  case (step i)
  then show ?case
    by (simp add: euro_lattice_rows [of m _ _ _ _ _ _ i] euro_entry_def)
qed

lemma terminal_root:
  "get2 (terminal_lattice PutCall K m S) 0 0 = (if m = 0 then payoff PutCall K (get2 S 0 0) else 0)"
  using terminal_lattice [of PutCall K m S] by auto

lemma binomial_tree_bad_tags:
  assumes "u \<noteq> d" "1 + r_f \<noteq> 0"
    and "(PutCall \<noteq> ''Call'' \<and> PutCall \<noteq> ''Put'') \<or> (Type \<noteq> ''E'' \<and> Type \<noteq> ''A'' \<and> 1 \<le> n)"
  shows "binomial_tree (int n) r_f S_0 K u d PutCall Type = Inr 0"
proof (cases "Type = ''E'' \<or> Type = ''A''")
  case True
  with assms(3) have pc: "PutCall \<noteq> ''Call''" "PutCall \<noteq> ''Put''" by auto
  from True show ?thesis
  proof
    assume "Type = ''E''"
    then show ?thesis
      using euro_lattice_zero [OF pc, of 0 n r_f S_0 K u d] assms(1,2)
      by (simp add: binomial_tree_european)
  next
    assume "Type = ''A''"
    then show ?thesis
      unfolding binomial_tree_unfold [OF assms(1)] american_loops_skip [OF pc] bindE_def
      using pc by (simp add: terminal_root payoff_def)
  qed
next
  case False
  then show ?thesis
    unfolding binomial_tree_unfold [OF assms(1)] bindE_def
    using assms(3) by (auto simp: terminal_root payoff_def)
qed

section \<open>One period at a time\<close>

text \<open>
  The sub-lattice above the up node \<open>(1, 1)\<close>, and the one above the down node \<open>(1, 0)\<close>, of
  a backward induction over \<open>m + 1\<close> periods is the lattice of the induction over \<open>m\<close> periods
  started from the state of that node. Hence the root value of each pricer is one
  discounting step applied to two prices of the same pricer.
\<close>

lemma sweep_shift:
  assumes shT: "shape T (m + 1 + 1)" and shT': "shape T' (m + 1)"
    and g: "\<And>i j. reads_row (i + 1) (g i j)" and g': "\<And>i j. reads_row (i + 1) (g' i j)"
    and c: "c \<le> 1"
    and last_row: "\<And>j. j \<le> m \<Longrightarrow> get2 T (m + 1) (j + c) = get2 T' m j"
    and entry: "\<And>i j V V'. i < m \<Longrightarrow> j \<le> i \<Longrightarrow>
       get2 V (i + 1 + 1) (j + c + 1) = get2 V' (i + 1) (j + 1) \<Longrightarrow>
       get2 V (i + 1 + 1) (j + c) = get2 V' (i + 1) j \<Longrightarrow>
       g (i + 1) (j + c) V = g' i j V'"
  shows "i \<le> m \<Longrightarrow>
         \<forall>j\<le>i. get2 (sweep g (rev [0..<m + 1]) T) (i + 1) (j + c) = get2 (sweep g' (rev [0..<m]) T') i j"
    (is "_ \<Longrightarrow> \<forall>j\<le>i. get2 ?W _ _ = get2 ?W' _ _")
proof -
  have rows: "get2 ?W a b = (if a < m + 1 \<and> b \<le> a then g a b ?W else get2 T a b)" for a b
    by (rule backward_rows [OF shT g, THEN conjunct2, rule_format])
  have rows': "get2 ?W' a b = (if a < m \<and> b \<le> a then g' a b ?W' else get2 T' a b)" for a b
    by (rule backward_rows [OF shT' g', THEN conjunct2, rule_format])
  show "i \<le> m \<Longrightarrow> \<forall>j\<le>i. get2 ?W (i + 1) (j + c) = get2 ?W' i j"
proof (induction i rule: inc_induct)
  case base
  show ?case
    using rows [of "m + 1"] rows' [of m] last_row by simp
next
  case (step i)
  show ?case
  proof (intro allI impI)
    fix j assume j: "j \<le> i"
    have l: "get2 ?W (i + 1) (j + c) = g (i + 1) (j + c) ?W"
      using rows [of "i + 1" "j + c"] step.hyps j c by simp
    have r: "get2 ?W' i j = g' i j ?W'"
      using rows' [of i j] step.hyps j by simp
    have "g (i + 1) (j + c) ?W = g' i j ?W'"
    proof (rule entry [OF step.hyps(2) j])
      show "get2 ?W (i + 1 + 1) (j + c + 1) = get2 ?W' (i + 1) (j + 1)"
        using step.IH [rule_format, of "j + 1"] j by (simp add: add.commute add.left_commute)
      show "get2 ?W (i + 1 + 1) (j + c) = get2 ?W' (i + 1) j"
        using step.IH [rule_format, of j] j by simp
    qed
    with l r show "get2 ?W (i + 1) (j + c) = get2 ?W' i j" by simp
  qed
qed
qed

lemma stock_lattice_closed:
  "i \<le> n \<Longrightarrow> j \<le> i \<Longrightarrow> get2 (stock_lattice S_0 n u d) i j = S_0 * u ^ j * d ^ (i - j)"
  by (simp add: stock_lattice_short_rate short_rate_closed)

lemma terminal_row:
  "j \<le> m \<Longrightarrow> get2 (terminal_lattice PutCall K m (stock_lattice S_0 m u d)) m j =
     payoff PutCall K (S_0 * u ^ j * d ^ (m - j))"
  using terminal_lattice [of PutCall K m "stock_lattice S_0 m u d"]
  by (simp add: stock_lattice_closed)

lemma euro_lattice_up:
  "i \<le> m \<Longrightarrow> \<forall>j\<le>i. get2 (euro_lattice (m + 1) r_f S_0 K u d PutCall) (i + 1) (j + 1) =
                         get2 (euro_lattice m r_f (S_0 * u) K u d PutCall) i j"
  unfolding euro_lattice_def
proof (rule sweep_shift [where c = 1])
  show "shape (terminal_lattice PutCall K (m + 1) (stock_lattice S_0 (m + 1) u d)) (m + 1 + 1)"
    using terminal_lattice by blast
  show "shape (terminal_lattice PutCall K m (stock_lattice (S_0 * u) m u d)) (m + 1)"
    using terminal_lattice by blast
  show "get2 (terminal_lattice PutCall K (m + 1) (stock_lattice S_0 (m + 1) u d)) (m + 1) (j + 1) =
        get2 (terminal_lattice PutCall K m (stock_lattice (S_0 * u) m u d)) m j" if "j \<le> m" for j
    using that by (simp add: terminal_row mult_ac)
qed (rule reads_row_euro_entry | simp add: euro_entry_def)+

lemma euro_lattice_down:
  "i \<le> m \<Longrightarrow> \<forall>j\<le>i. get2 (euro_lattice (m + 1) r_f S_0 K u d PutCall) (i + 1) (j + 0) =
                         get2 (euro_lattice m r_f (S_0 * d) K u d PutCall) i j"
  unfolding euro_lattice_def
proof (rule sweep_shift [where c = 0])
  show "shape (terminal_lattice PutCall K (m + 1) (stock_lattice S_0 (m + 1) u d)) (m + 1 + 1)"
    using terminal_lattice by blast
  show "shape (terminal_lattice PutCall K m (stock_lattice (S_0 * d) m u d)) (m + 1)"
    using terminal_lattice by blast
  show "get2 (terminal_lattice PutCall K (m + 1) (stock_lattice S_0 (m + 1) u d)) (m + 1) (j + 0) =
        get2 (terminal_lattice PutCall K m (stock_lattice (S_0 * d) m u d)) m j" if "j \<le> m" for j
    using that by (simp add: terminal_row Suc_diff_le mult_ac)
qed (rule reads_row_euro_entry | simp add: euro_entry_def)+

lemma euro_lattice_root:
  "get2 (euro_lattice (m + 1) r_f S_0 K u d PutCall) 0 0 =
     (1 / (1 + r_f)) *
       ((((1 + r_f) - d) / (u - d)) * get2 (euro_lattice m r_f (S_0 * u) K u d PutCall) 0 0
        + (1 - ((1 + r_f) - d) / (u - d)) * get2 (euro_lattice m r_f (S_0 * d) K u d PutCall) 0 0)"
proof -
  let ?E = "euro_lattice (m + 1) r_f S_0 K u d PutCall"
  have up: "get2 ?E (0 + 1) (0 + 1) = get2 (euro_lattice m r_f (S_0 * u) K u d PutCall) 0 0"
    using euro_lattice_up [of 0 m r_f S_0 K u d PutCall] by blast
  have down: "get2 ?E (0 + 1) 0 = get2 (euro_lattice m r_f (S_0 * d) K u d PutCall) 0 0"
    using euro_lattice_down [of 0 m r_f S_0 K u d PutCall] by simp
  have "get2 ?E 0 0 = euro_entry r_f (((1 + r_f) - d) / (u - d)) 0 0 ?E"
    by (subst euro_lattice_rows) simp
  then show ?thesis
    unfolding euro_entry_def up down .
qed

lemma binomial_tree_european_step:
  assumes "u \<noteq> d" "1 + r_f \<noteq> 0"
  shows "\<exists>a b. binomial_tree (int n) r_f (S_0 * u) K u d PutCall ''E'' = Inr a \<and>
           binomial_tree (int n) r_f (S_0 * d) K u d PutCall ''E'' = Inr b \<and>
           binomial_tree (int (Suc n)) r_f S_0 K u d PutCall ''E'' =
             Inr ((1 / (1 + r_f)) *
                    ((((1 + r_f) - d) / (u - d)) * a + (1 - ((1 + r_f) - d) / (u - d)) * b))"
proof (intro exI conjI)
  show "binomial_tree (int n) r_f (S_0 * u) K u d PutCall ''E'' =
        Inr (get2 (euro_lattice n r_f (S_0 * u) K u d PutCall) 0 0)"
    using assms by (rule binomial_tree_european)
  show "binomial_tree (int n) r_f (S_0 * d) K u d PutCall ''E'' =
        Inr (get2 (euro_lattice n r_f (S_0 * d) K u d PutCall) 0 0)"
    using assms by (rule binomial_tree_european)
  have "binomial_tree (int (Suc n)) r_f S_0 K u d PutCall ''E'' =
        Inr (get2 (euro_lattice (n + 1) r_f S_0 K u d PutCall) 0 0)"
    using binomial_tree_european [OF assms, of "Suc n" S_0 K PutCall] by simp
  then show "binomial_tree (int (Suc n)) r_f S_0 K u d PutCall ''E'' =
        Inr ((1 / (1 + r_f)) *
               ((((1 + r_f) - d) / (u - d)) * get2 (euro_lattice n r_f (S_0 * u) K u d PutCall) 0 0
                + (1 - ((1 + r_f) - d) / (u - d)) * get2 (euro_lattice n r_f (S_0 * d) K u d PutCall) 0 0))"
    by (simp only: euro_lattice_root)
qed

definition rate_lattice :: "real \<Rightarrow> nat \<Rightarrow> real \<Rightarrow> real \<Rightarrow> lattice" where
  "rate_lattice r_0 m u d = map (map (\<lambda>x. x / 100)) (short_rate r_0 m u d)"

definition swap_terminal :: "real \<Rightarrow> real \<Rightarrow> nat \<Rightarrow> real \<Rightarrow> real \<Rightarrow> lattice" where
  "swap_terminal k r_0 m u d =
     fold (\<lambda>i swap_lattice.
             set2 swap_lattice m i
               ((get2 (rate_lattice r_0 m u d) m i - k / 100) / (1 + get2 (rate_lattice r_0 m u d) m i)))
       [0..<m + 1] (zeros (m + 1) (m + 1))"

definition swap_lattice :: "real \<Rightarrow> real \<Rightarrow> nat \<Rightarrow> real \<Rightarrow> real \<Rightarrow> lattice" where
  "swap_lattice k r_0 m u d =
     sweep (swap_entry k (rate_lattice r_0 m u d)) (rev [0..<m]) (swap_terminal k r_0 m u d)"

lemma rate_lattice_closed:
  "i \<le> m \<Longrightarrow> j \<le> i \<Longrightarrow> get2 (rate_lattice r_0 m u d) i j = r_0 * u ^ j * d ^ (i - j) / 100"
  unfolding rate_lattice_def by (simp add: scaled_rate short_rate_closed)

lemma swap_price_lattice:
  "swap_price p k r_0 (Suc m) u d = Inr (get2 (swap_lattice k r_0 m u d) 0 0 * p)"
proof -
  have "swap_price p k r_0 (m + 1) u d = Inr (get2 (swap_lattice k r_0 m u d) 0 0 * p)"
    unfolding swap_price_def Let_def swap_price_loops bindE_def swap_lattice_def swap_terminal_def
      rate_lattice_def add_diff_cancel_right'
    by simp
  then show ?thesis by simp
qed

lemma swap_price'_lattice:
  "swap_price' p k r_0 (Suc m) u d = Inr (swap_lattice k r_0 m u d)"
proof -
  have "swap_price' p k r_0 (m + 1) u d = Inr (swap_lattice k r_0 m u d)"
    unfolding swap_price'_def Let_def swap_lattice_def swap_terminal_def sweep_def swap_entry_def
      rate_lattice_def add_diff_cancel_right'
    by simp
  then show ?thesis by simp
qed

lemma swap_terminal:
  "shape (swap_terminal k r_0 m u d) (m + 1) \<and>
   (\<forall>i j. i \<le> m \<and> j \<le> m \<longrightarrow>
      get2 (swap_terminal k r_0 m u d) i j =
        (if i = m
         then (get2 (rate_lattice r_0 m u d) m j - k / 100) / (1 + get2 (rate_lattice r_0 m u d) m j)
         else 0))"
proof -
  let ?g = "\<lambda>j. (get2 (rate_lattice r_0 m u d) m j - k / 100) / (1 + get2 (rate_lattice r_0 m u d) m j)"
  have "shape (fold (\<lambda>j V. set2 V m j (?g j)) [0..<m + 1] (zeros (m + 1) (m + 1))) (m + 1) \<and>
      (\<forall>i' j'. get2 (fold (\<lambda>j V. set2 V m j (?g j)) [0..<m + 1] (zeros (m + 1) (m + 1))) i' j' =
         (if i' = m \<and> j' < m + 1 then ?g j' else get2 (zeros (m + 1) (m + 1)) i' j'))"
    by (rule row_fill [OF shape_zeros _ _ off_row_const]) simp_all
  then show ?thesis
    unfolding swap_terminal_def by (auto simp: get2_zeros)
qed

lemma reads_row_swap_entry: "reads_row (i + 1) (swap_entry k rate i j)"
  by (simp add: reads_row_def swap_entry_def)

lemma swap_lattice_rows:
  "get2 (swap_lattice k r_0 m u d) i j =
     (if i < m \<and> j \<le> i
      then swap_entry k (rate_lattice r_0 m u d) i j (swap_lattice k r_0 m u d)
      else get2 (swap_terminal k r_0 m u d) i j)"
  unfolding swap_lattice_def
  by (rule backward_rows [OF swap_terminal [THEN conjunct1] reads_row_swap_entry,
        THEN conjunct2, rule_format])

lemma swap_lattice_shape: "shape (swap_lattice k r_0 m u d) (m + 1)"
  unfolding swap_lattice_def
  by (rule backward_rows [OF swap_terminal [THEN conjunct1] reads_row_swap_entry, THEN conjunct1])

lemma rate_lattice_up:
  "i \<le> m \<Longrightarrow> j \<le> i \<Longrightarrow>
   get2 (rate_lattice r_0 (m + 1) u d) (i + 1) (j + 1) = get2 (rate_lattice (r_0 * u) m u d) i j"
  by (simp add: rate_lattice_closed mult_ac)

lemma rate_lattice_down:
  "i \<le> m \<Longrightarrow> j \<le> i \<Longrightarrow>
   get2 (rate_lattice r_0 (m + 1) u d) (i + 1) j = get2 (rate_lattice (r_0 * d) m u d) i j"
  by (simp add: rate_lattice_closed Suc_diff_le mult_ac)

lemma swap_lattice_up:
  "i \<le> m \<Longrightarrow> \<forall>j\<le>i. get2 (swap_lattice k r_0 (m + 1) u d) (i + 1) (j + 1) =
                         get2 (swap_lattice k (r_0 * u) m u d) i j"
  unfolding swap_lattice_def
proof (rule sweep_shift [where c = 1])
  show "shape (swap_terminal k r_0 (m + 1) u d) (m + 1 + 1)"
    using swap_terminal by blast
  show "shape (swap_terminal k (r_0 * u) m u d) (m + 1)"
    using swap_terminal by blast
  show "get2 (swap_terminal k r_0 (m + 1) u d) (m + 1) (j + 1) = get2 (swap_terminal k (r_0 * u) m u d) m j"
    if "j \<le> m" for j
    using that swap_terminal [of k r_0 "m + 1" u d] swap_terminal [of k "r_0 * u" m u d]
      rate_lattice_up [of m m j r_0 u d]
    by simp
  show "swap_entry k (rate_lattice r_0 (m + 1) u d) (i + 1) (j + 1) V =
        swap_entry k (rate_lattice (r_0 * u) m u d) i j V'"
    if "i < m" "j \<le> i" "get2 V (i + 1 + 1) (j + 1 + 1) = get2 V' (i + 1) (j + 1)"
      "get2 V (i + 1 + 1) (j + 1) = get2 V' (i + 1) j" for i j V V'
    unfolding swap_entry_def using that rate_lattice_up [of i m j r_0 u d] by simp
qed (rule reads_row_swap_entry | simp)+

lemma swap_lattice_down:
  "i \<le> m \<Longrightarrow> \<forall>j\<le>i. get2 (swap_lattice k r_0 (m + 1) u d) (i + 1) (j + 0) =
                         get2 (swap_lattice k (r_0 * d) m u d) i j"
  unfolding swap_lattice_def
proof (rule sweep_shift [where c = 0])
  show "shape (swap_terminal k r_0 (m + 1) u d) (m + 1 + 1)"
    using swap_terminal by blast
  show "shape (swap_terminal k (r_0 * d) m u d) (m + 1)"
    using swap_terminal by blast
  show "get2 (swap_terminal k r_0 (m + 1) u d) (m + 1) (j + 0) = get2 (swap_terminal k (r_0 * d) m u d) m j"
    if "j \<le> m" for j
    using that swap_terminal [of k r_0 "m + 1" u d] swap_terminal [of k "r_0 * d" m u d]
      rate_lattice_down [of m m j r_0 u d]
    by simp
  show "swap_entry k (rate_lattice r_0 (m + 1) u d) (i + 1) (j + 0) V =
        swap_entry k (rate_lattice (r_0 * d) m u d) i j V'"
    if "i < m" "j \<le> i" "get2 V (i + 1 + 1) (j + 0 + 1) = get2 V' (i + 1) (j + 1)"
      "get2 V (i + 1 + 1) (j + 0) = get2 V' (i + 1) j" for i j V V'
    unfolding swap_entry_def using that rate_lattice_down [of i m j r_0 u d] by simp
qed (rule reads_row_swap_entry | simp)+

lemma swap_lattice_root:
  "get2 (swap_lattice k r_0 (m + 1) u d) 0 0 =
     (1 / (1 + r_0 / 100)) *
       ((1 / 2) * get2 (swap_lattice k (r_0 * u) m u d) 0 0
        + (1 - 1 / 2) * get2 (swap_lattice k (r_0 * d) m u d) 0 0
        + (r_0 / 100 - k / 100))"
proof -
  let ?W = "swap_lattice k r_0 (m + 1) u d"
  have up: "get2 ?W (0 + 1) (0 + 1) = get2 (swap_lattice k (r_0 * u) m u d) 0 0"
    using swap_lattice_up [of 0 m k r_0 u d] by blast
  have down: "get2 ?W (0 + 1) 0 = get2 (swap_lattice k (r_0 * d) m u d) 0 0"
    using swap_lattice_down [of 0 m k r_0 u d] by simp
  have rate: "get2 (rate_lattice r_0 (m + 1) u d) 0 0 = r_0 / 100"
    by (simp add: rate_lattice_closed)
  have "get2 ?W 0 0 = swap_entry k (rate_lattice r_0 (m + 1) u d) 0 0 ?W"
    by (subst swap_lattice_rows) simp
  then show ?thesis
    unfolding swap_entry_def up down rate .
qed

lemma swap_lattice_single:
  "get2 (swap_lattice k r_0 0 u d) 0 0 = (r_0 / 100 - k / 100) / (1 + r_0 / 100)"
  using swap_terminal [of k r_0 0 u d]
  by (simp add: swap_lattice_rows rate_lattice_closed)

definition swaption_terminal :: "real \<Rightarrow> real \<Rightarrow> nat \<Rightarrow> nat \<Rightarrow> real \<Rightarrow> real \<Rightarrow> lattice" where
  "swaption_terminal r_f r_0 n_o m u d =
     fold (\<lambda>i swaption_lattice.
             set2 swaption_lattice n_o i (max (get2 (swap_lattice r_f r_0 m u d) n_o i) 0))
       [0..<n_o + 1] (zeros (n_o + 1) (n_o + 1))"

definition swaption_entry :: "lattice \<Rightarrow> nat \<Rightarrow> nat \<Rightarrow> lattice \<Rightarrow> real" where
  "swaption_entry rate i j V =
     (1 / (1 + get2 rate i j)) * ((1 / 2) * get2 V (i + 1) (j + 1) + (1 - 1 / 2) * get2 V (i + 1) j)"

definition swaption_lattice :: "real \<Rightarrow> real \<Rightarrow> nat \<Rightarrow> nat \<Rightarrow> real \<Rightarrow> real \<Rightarrow> lattice" where
  "swaption_lattice r_f r_0 n_o m u d =
     sweep (swaption_entry (rate_lattice r_0 n_o u d)) (rev [0..<n_o]) (swaption_terminal r_f r_0 n_o m u d)"

lemma np_get_inside: "shape a N \<Longrightarrow> i < N \<Longrightarrow> j < N \<Longrightarrow> np_get a i j = Inr (get2 a i j)"
  by (simp add: np_get_def shape_def get2_def)

lemma swaption_price_lattice:
  assumes "n_o \<le> m"
  shows "swaption_price k r_f r_0 n_o (Suc m) u d = Inr (get2 (swaption_lattice r_f r_0 n_o m u d) 0 0)"
proof -
  let ?SL = "swap_lattice r_f r_0 m u d"
  have "foldE (\<lambda>i swaption_lattice.
                 bindE (np_get ?SL n_o i) (\<lambda>x. Inr (set2 swaption_lattice n_o i (max x 0))))
          [0..<n_o + 1] (zeros (n_o + 1) (n_o + 1)) =
        Inr (swaption_terminal r_f r_0 n_o m u d)"
    unfolding swaption_terminal_def
  proof (rule foldE_pure)
    fix i :: nat and V :: lattice
    assume "i \<in> set [0..<n_o + 1]"
    then have "np_get ?SL n_o i = Inr (get2 ?SL n_o i)"
      using assms by (intro np_get_inside [OF swap_lattice_shape]) auto
    then show "bindE (np_get ?SL n_o i) (\<lambda>x. Inr (set2 V n_o i (max x 0))) =
               Inr (set2 V n_o i (max (get2 ?SL n_o i) 0))"
      by (simp add: bindE_def)
  qed
  then show ?thesis
    unfolding swaption_price_def swap_price'_lattice swaption_lattice_def sweep_def swaption_entry_def
      rate_lattice_def Let_def
    by (simp add: bindE_def)
qed

lemma swaption_terminal:
  "shape (swaption_terminal r_f r_0 n_o m u d) (n_o + 1) \<and>
   (\<forall>i j. i \<le> n_o \<and> j \<le> n_o \<longrightarrow>
      get2 (swaption_terminal r_f r_0 n_o m u d) i j =
        (if i = n_o then max (get2 (swap_lattice r_f r_0 m u d) n_o j) 0 else 0))"
proof -
  let ?g = "\<lambda>j. max (get2 (swap_lattice r_f r_0 m u d) n_o j) 0"
  have "shape (fold (\<lambda>j V. set2 V n_o j (?g j)) [0..<n_o + 1] (zeros (n_o + 1) (n_o + 1))) (n_o + 1) \<and>
      (\<forall>i' j'. get2 (fold (\<lambda>j V. set2 V n_o j (?g j)) [0..<n_o + 1] (zeros (n_o + 1) (n_o + 1))) i' j' =
         (if i' = n_o \<and> j' < n_o + 1 then ?g j' else get2 (zeros (n_o + 1) (n_o + 1)) i' j'))"
    by (rule row_fill [OF shape_zeros _ _ off_row_const]) simp_all
  then show ?thesis
    unfolding swaption_terminal_def by (auto simp: get2_zeros)
qed

lemma reads_row_swaption_entry: "reads_row (i + 1) (swaption_entry rate i j)"
  by (simp add: reads_row_def swaption_entry_def)

lemma swaption_lattice_rows:
  "get2 (swaption_lattice r_f r_0 n_o m u d) i j =
     (if i < n_o \<and> j \<le> i
      then swaption_entry (rate_lattice r_0 n_o u d) i j (swaption_lattice r_f r_0 n_o m u d)
      else get2 (swaption_terminal r_f r_0 n_o m u d) i j)"
  unfolding swaption_lattice_def
  by (rule backward_rows [OF swaption_terminal [THEN conjunct1] reads_row_swaption_entry,
        THEN conjunct2, rule_format])

lemma swaption_lattice_up:
  assumes "n_o \<le> m"
  shows "i \<le> n_o \<Longrightarrow> \<forall>j\<le>i. get2 (swaption_lattice r_f r_0 (n_o + 1) (m + 1) u d) (i + 1) (j + 1) =
                         get2 (swaption_lattice r_f (r_0 * u) n_o m u d) i j"
  unfolding swaption_lattice_def
proof (rule sweep_shift [where c = 1])
  show "shape (swaption_terminal r_f r_0 (n_o + 1) (m + 1) u d) (n_o + 1 + 1)"
    using swaption_terminal by blast
  show "shape (swaption_terminal r_f (r_0 * u) n_o m u d) (n_o + 1)"
    using swaption_terminal by blast
  show "get2 (swaption_terminal r_f r_0 (n_o + 1) (m + 1) u d) (n_o + 1) (j + 1) =
        get2 (swaption_terminal r_f (r_0 * u) n_o m u d) n_o j"
    if "j \<le> n_o" for j
    using that swaption_terminal [of r_f r_0 "n_o + 1" "m + 1" u d]
      swaption_terminal [of r_f "r_0 * u" n_o m u d]
      swap_lattice_up [of n_o m r_f r_0 u d] assms
    by simp
  show "swaption_entry (rate_lattice r_0 (n_o + 1) u d) (i + 1) (j + 1) V =
        swaption_entry (rate_lattice (r_0 * u) n_o u d) i j V'"
    if "i < n_o" "j \<le> i" "get2 V (i + 1 + 1) (j + 1 + 1) = get2 V' (i + 1) (j + 1)"
      "get2 V (i + 1 + 1) (j + 1) = get2 V' (i + 1) j" for i j V V'
    unfolding swaption_entry_def using that rate_lattice_up [of i n_o j r_0 u d] by simp
qed (rule reads_row_swaption_entry | simp)+

lemma swaption_lattice_down:
  assumes "n_o \<le> m"
  shows "i \<le> n_o \<Longrightarrow> \<forall>j\<le>i. get2 (swaption_lattice r_f r_0 (n_o + 1) (m + 1) u d) (i + 1) (j + 0) =
                         get2 (swaption_lattice r_f (r_0 * d) n_o m u d) i j"
  unfolding swaption_lattice_def
proof (rule sweep_shift [where c = 0])
  show "shape (swaption_terminal r_f r_0 (n_o + 1) (m + 1) u d) (n_o + 1 + 1)"
    using swaption_terminal by blast
  show "shape (swaption_terminal r_f (r_0 * d) n_o m u d) (n_o + 1)"
    using swaption_terminal by blast
  show "get2 (swaption_terminal r_f r_0 (n_o + 1) (m + 1) u d) (n_o + 1) (j + 0) =
        get2 (swaption_terminal r_f (r_0 * d) n_o m u d) n_o j"
    if "j \<le> n_o" for j
    using that swaption_terminal [of r_f r_0 "n_o + 1" "m + 1" u d]
      swaption_terminal [of r_f "r_0 * d" n_o m u d]
      swap_lattice_down [of n_o m r_f r_0 u d] assms
    by simp
  show "swaption_entry (rate_lattice r_0 (n_o + 1) u d) (i + 1) (j + 0) V =
        swaption_entry (rate_lattice (r_0 * d) n_o u d) i j V'"
    if "i < n_o" "j \<le> i" "get2 V (i + 1 + 1) (j + 0 + 1) = get2 V' (i + 1) (j + 1)"
      "get2 V (i + 1 + 1) (j + 0) = get2 V' (i + 1) j" for i j V V'
    unfolding swaption_entry_def using that rate_lattice_down [of i n_o j r_0 u d] by simp
qed (rule reads_row_swaption_entry | simp)+

lemma swaption_lattice_root:
  assumes "n_o \<le> m"
  shows "get2 (swaption_lattice r_f r_0 (n_o + 1) (m + 1) u d) 0 0 =
     (1 / (1 + r_0 / 100)) *
       ((1 / 2) * get2 (swaption_lattice r_f (r_0 * u) n_o m u d) 0 0
        + (1 - 1 / 2) * get2 (swaption_lattice r_f (r_0 * d) n_o m u d) 0 0)"
proof -
  let ?W = "swaption_lattice r_f r_0 (n_o + 1) (m + 1) u d"
  have up: "get2 ?W (0 + 1) (0 + 1) = get2 (swaption_lattice r_f (r_0 * u) n_o m u d) 0 0"
    using swaption_lattice_up [OF assms, of 0 r_f r_0 u d] by blast
  have down: "get2 ?W (0 + 1) 0 = get2 (swaption_lattice r_f (r_0 * d) n_o m u d) 0 0"
    using swaption_lattice_down [OF assms, of 0 r_f r_0 u d] by simp
  have rate: "get2 (rate_lattice r_0 (n_o + 1) u d) 0 0 = r_0 / 100"
    by (simp add: rate_lattice_closed)
  have "get2 ?W 0 0 = swaption_entry (rate_lattice r_0 (n_o + 1) u d) 0 0 ?W"
    by (subst swaption_lattice_rows) simp
  then show ?thesis
    unfolding swaption_entry_def up down rate .
qed

lemma swap_price_single:
  "swap_price p k r_0 1 u d = Inr ((r_0 / 100 - k / 100) / (1 + r_0 / 100) * p)"
  using swap_price_lattice [of p k r_0 0 u d] by (simp add: swap_lattice_single)

lemma swap_price_step:
  "\<exists>a b. swap_price 1 k (r_0 * u) (Suc m) u d = Inr a \<and>
         swap_price 1 k (r_0 * d) (Suc m) u d = Inr b \<and>
         swap_price p k r_0 (Suc (Suc m)) u d =
           Inr ((1 / (1 + r_0 / 100)) * ((1 / 2) * a + (1 - 1 / 2) * b + (r_0 / 100 - k / 100)) * p)"
proof (intro exI conjI)
  show "swap_price 1 k (r_0 * u) (Suc m) u d = Inr (get2 (swap_lattice k (r_0 * u) m u d) 0 0)"
    by (simp add: swap_price_lattice)
  show "swap_price 1 k (r_0 * d) (Suc m) u d = Inr (get2 (swap_lattice k (r_0 * d) m u d) 0 0)"
    by (simp add: swap_price_lattice)
  have "swap_price p k r_0 (Suc (Suc m)) u d = Inr (get2 (swap_lattice k r_0 (m + 1) u d) 0 0 * p)"
    using swap_price_lattice [of p k r_0 "Suc m" u d] by simp
  then show "swap_price p k r_0 (Suc (Suc m)) u d =
      Inr ((1 / (1 + r_0 / 100)) *
             ((1 / 2) * get2 (swap_lattice k (r_0 * u) m u d) 0 0
              + (1 - 1 / 2) * get2 (swap_lattice k (r_0 * d) m u d) 0 0
              + (r_0 / 100 - k / 100)) * p)"
    by (simp only: swap_lattice_root)
qed

lemma swaption_price_step:
  assumes "n_o \<le> m"
  shows "\<exists>a b. swaption_price k r_f (r_0 * u) n_o (Suc m) u d = Inr a \<and>
           swaption_price k r_f (r_0 * d) n_o (Suc m) u d = Inr b \<and>
           swaption_price k r_f r_0 (Suc n_o) (Suc (Suc m)) u d =
             Inr ((1 / (1 + r_0 / 100)) * ((1 / 2) * a + (1 - 1 / 2) * b))"
proof (intro exI conjI)
  show "swaption_price k r_f (r_0 * u) n_o (Suc m) u d =
        Inr (get2 (swaption_lattice r_f (r_0 * u) n_o m u d) 0 0)"
    using assms by (rule swaption_price_lattice)
  show "swaption_price k r_f (r_0 * d) n_o (Suc m) u d =
        Inr (get2 (swaption_lattice r_f (r_0 * d) n_o m u d) 0 0)"
    using assms by (rule swaption_price_lattice)
  have "swaption_price k r_f r_0 (Suc n_o) (Suc (Suc m)) u d =
        Inr (get2 (swaption_lattice r_f r_0 (n_o + 1) (m + 1) u d) 0 0)"
    using swaption_price_lattice [of "Suc n_o" "Suc m" k r_f r_0 u d] assms by simp
  then show "swaption_price k r_f r_0 (Suc n_o) (Suc (Suc m)) u d =
      Inr ((1 / (1 + r_0 / 100)) *
             ((1 / 2) * get2 (swaption_lattice r_f (r_0 * u) n_o m u d) 0 0
              + (1 - 1 / 2) * get2 (swaption_lattice r_f (r_0 * d) n_o m u d) 0 0))"
    by (simp only: swaption_lattice_root [OF assms])
qed

lemma stock_lattice_up:
  "i \<le> m \<Longrightarrow> j \<le> i \<Longrightarrow>
   get2 (stock_lattice S_0 (m + 1) u d) (i + 1) (j + 1) = get2 (stock_lattice (S_0 * u) m u d) i j"
  by (simp add: stock_lattice_closed mult_ac)

lemma stock_lattice_down:
  "i \<le> m \<Longrightarrow> j \<le> i \<Longrightarrow>
   get2 (stock_lattice S_0 (m + 1) u d) (i + 1) j = get2 (stock_lattice (S_0 * d) m u d) i j"
  by (simp add: stock_lattice_closed Suc_diff_le mult_ac)

lemma amer_lattice_up:
  "i \<le> m \<Longrightarrow> \<forall>j\<le>i. get2 (amer_lattice (m + 1) r_f S_0 K u d PutCall) (i + 1) (j + 1) =
                         get2 (amer_lattice m r_f (S_0 * u) K u d PutCall) i j"
  unfolding amer_lattice_def
proof (rule sweep_shift [where c = 1])
  show "shape (terminal_lattice PutCall K (m + 1) (stock_lattice S_0 (m + 1) u d)) (m + 1 + 1)"
    using terminal_lattice by blast
  show "shape (terminal_lattice PutCall K m (stock_lattice (S_0 * u) m u d)) (m + 1)"
    using terminal_lattice by blast
  show "get2 (terminal_lattice PutCall K (m + 1) (stock_lattice S_0 (m + 1) u d)) (m + 1) (j + 1) =
        get2 (terminal_lattice PutCall K m (stock_lattice (S_0 * u) m u d)) m j" if "j \<le> m" for j
    using that by (simp add: terminal_row mult_ac)
  show "amer_entry PutCall K r_f ((1 + r_f - d) / (u - d)) (stock_lattice S_0 (m + 1) u d) (i + 1) (j + 1) V =
        amer_entry PutCall K r_f ((1 + r_f - d) / (u - d)) (stock_lattice (S_0 * u) m u d) i j V'"
    if "i < m" "j \<le> i" "get2 V (i + 1 + 1) (j + 1 + 1) = get2 V' (i + 1) (j + 1)"
      "get2 V (i + 1 + 1) (j + 1) = get2 V' (i + 1) j" for i j V V'
    unfolding amer_entry_def euro_entry_def
    using that stock_lattice_up [of i m j S_0 u d] by simp
qed (rule reads_row_amer_entry | simp)+

lemma amer_lattice_down:
  "i \<le> m \<Longrightarrow> \<forall>j\<le>i. get2 (amer_lattice (m + 1) r_f S_0 K u d PutCall) (i + 1) (j + 0) =
                         get2 (amer_lattice m r_f (S_0 * d) K u d PutCall) i j"
  unfolding amer_lattice_def
proof (rule sweep_shift [where c = 0])
  show "shape (terminal_lattice PutCall K (m + 1) (stock_lattice S_0 (m + 1) u d)) (m + 1 + 1)"
    using terminal_lattice by blast
  show "shape (terminal_lattice PutCall K m (stock_lattice (S_0 * d) m u d)) (m + 1)"
    using terminal_lattice by blast
  show "get2 (terminal_lattice PutCall K (m + 1) (stock_lattice S_0 (m + 1) u d)) (m + 1) (j + 0) =
        get2 (terminal_lattice PutCall K m (stock_lattice (S_0 * d) m u d)) m j" if "j \<le> m" for j
    using that by (simp add: terminal_row Suc_diff_le mult_ac)
  show "amer_entry PutCall K r_f ((1 + r_f - d) / (u - d)) (stock_lattice S_0 (m + 1) u d) (i + 1) (j + 0) V =
        amer_entry PutCall K r_f ((1 + r_f - d) / (u - d)) (stock_lattice (S_0 * d) m u d) i j V'"
    if "i < m" "j \<le> i" "get2 V (i + 1 + 1) (j + 0 + 1) = get2 V' (i + 1) (j + 1)"
      "get2 V (i + 1 + 1) (j + 0) = get2 V' (i + 1) j" for i j V V'
    unfolding amer_entry_def euro_entry_def
    using that stock_lattice_down [of i m j S_0 u d] by simp
qed (rule reads_row_amer_entry | simp)+

lemma amer_lattice_root:
  "get2 (amer_lattice (m + 1) r_f S_0 K u d PutCall) 0 0 =
     max 0 (max (if PutCall = ''Put'' then K - S_0 else S_0 - K)
       ((1 / (1 + r_f)) *
         ((((1 + r_f) - d) / (u - d)) * get2 (amer_lattice m r_f (S_0 * u) K u d PutCall) 0 0
          + (1 - ((1 + r_f) - d) / (u - d)) * get2 (amer_lattice m r_f (S_0 * d) K u d PutCall) 0 0)))"
proof -
  let ?A = "amer_lattice (m + 1) r_f S_0 K u d PutCall"
  have up: "get2 ?A (0 + 1) (0 + 1) = get2 (amer_lattice m r_f (S_0 * u) K u d PutCall) 0 0"
    using amer_lattice_up [of 0 m r_f S_0 K u d PutCall] by blast
  have down: "get2 ?A (0 + 1) 0 = get2 (amer_lattice m r_f (S_0 * d) K u d PutCall) 0 0"
    using amer_lattice_down [of 0 m r_f S_0 K u d PutCall] by simp
  have root: "get2 (stock_lattice S_0 (m + 1) u d) 0 0 = S_0"
    by (simp add: stock_lattice_closed)
  have "get2 ?A 0 0 = amer_entry PutCall K r_f (((1 + r_f) - d) / (u - d)) (stock_lattice S_0 (m + 1) u d) 0 0 ?A"
    by (subst amer_lattice_rows) simp
  then show ?thesis
    unfolding amer_entry_def euro_entry_def up down root .
qed

lemma binomial_tree_american_step:
  assumes "u \<noteq> d" "1 + r_f \<noteq> 0" "PutCall = ''Call'' \<or> PutCall = ''Put''"
  shows "\<exists>a b. binomial_tree (int n) r_f (S_0 * u) K u d PutCall ''A'' = Inr a \<and>
           binomial_tree (int n) r_f (S_0 * d) K u d PutCall ''A'' = Inr b \<and>
           binomial_tree (int (Suc n)) r_f S_0 K u d PutCall ''A'' =
             Inr (max 0 (max (if PutCall = ''Put'' then K - S_0 else S_0 - K)
                    ((1 / (1 + r_f)) *
                       ((((1 + r_f) - d) / (u - d)) * a + (1 - ((1 + r_f) - d) / (u - d)) * b))))"
proof (intro exI conjI)
  show "binomial_tree (int n) r_f (S_0 * u) K u d PutCall ''A'' =
        Inr (get2 (amer_lattice n r_f (S_0 * u) K u d PutCall) 0 0)"
    using assms by (rule binomial_tree_american)
  show "binomial_tree (int n) r_f (S_0 * d) K u d PutCall ''A'' =
        Inr (get2 (amer_lattice n r_f (S_0 * d) K u d PutCall) 0 0)"
    using assms by (rule binomial_tree_american)
  have "binomial_tree (int (Suc n)) r_f S_0 K u d PutCall ''A'' =
        Inr (get2 (amer_lattice (n + 1) r_f S_0 K u d PutCall) 0 0)"
    using binomial_tree_american [OF assms, of "Suc n" S_0 K] by simp
  then show "binomial_tree (int (Suc n)) r_f S_0 K u d PutCall ''A'' =
        Inr (max 0 (max (if PutCall = ''Put'' then K - S_0 else S_0 - K)
               ((1 / (1 + r_f)) *
                  ((((1 + r_f) - d) / (u - d)) * get2 (amer_lattice n r_f (S_0 * u) K u d PutCall) 0 0
                   + (1 - ((1 + r_f) - d) / (u - d)) * get2 (amer_lattice n r_f (S_0 * d) K u d PutCall) 0 0))))"
    by (simp only: amer_lattice_root)
qed

lemma binomial_tree_no_period:
  assumes "u \<noteq> d"
  shows "binomial_tree 0 r_f S_0 K u d PutCall Type =
           Inr (if PutCall = ''Call'' then max 0 (S_0 - K)
                else if PutCall = ''Put'' then max 0 (K - S_0) else 0)"
proof -
  have "binomial_tree (int 0) r_f S_0 K u d PutCall Type =
          Inr (get2 (terminal_lattice PutCall K 0 (stock_lattice S_0 0 u d)) 0 0)"
    unfolding binomial_tree_unfold [OF assms] by (simp add: bindE_def)
  then show ?thesis
    by (simp add: terminal_root payoff_def stock_lattice_closed)
qed

lemma swaption_price_at_expiry:
  "\<exists>a. swap_price 1 r_f r_0 (Suc m) u d = Inr a \<and>
       swaption_price k r_f r_0 0 (Suc m) u d = Inr (max a 0)"
proof (intro exI conjI)
  show "swap_price 1 r_f r_0 (Suc m) u d = Inr (get2 (swap_lattice r_f r_0 m u d) 0 0)"
    by (simp add: swap_price_lattice)
  have "swaption_price k r_f r_0 0 (Suc m) u d = Inr (get2 (swaption_lattice r_f r_0 0 m u d) 0 0)"
    by (rule swaption_price_lattice) simp
  then show "swaption_price k r_f r_0 0 (Suc m) u d = Inr (max (get2 (swap_lattice r_f r_0 m u d) 0 0) 0)"
    using swaption_terminal [of r_f r_0 0 m u d]
    by (simp add: swaption_lattice_rows)
qed

lemma elementary_prices_explicit:
  assumes "1 \<le> i" "i \<le> n" "j \<le> i"
  shows "get2 (elementary_prices r_0 n u d) i j =
    (if j = 0 then 0
     else get2 (elementary_prices r_0 n u d) (i - 1) (j - 1)
            / (2 * (1 + r_0 * u ^ (j - 1) * d ^ (i - 1 - (j - 1)) / 100)))
    + (if j < i
       then get2 (elementary_prices r_0 n u d) (i - 1) j
              / (2 * (1 + r_0 * u ^ j * d ^ (i - 1 - j) / 100))
       else 0)"
proof -
  have a: "get2 (short_rate r_0 n u d) (i - 1) (j - 1) = r_0 * u ^ (j - 1) * d ^ (i - 1 - (j - 1))"
    if "j \<noteq> 0"
    by (rule short_rate_closed) (use assms that in auto)
  have b: "get2 (short_rate r_0 n u d) (i - 1) j = r_0 * u ^ j * d ^ (i - 1 - j)" if "j < i"
    by (rule short_rate_closed) (use assms that in auto)
  show ?thesis
    unfolding elementary_prices_entry [OF assms] using a b by auto
qed

section \<open>Forward equations\<close>

text \<open>
  C1. For every initial rate \<open>r_0\<close> (in percent), every \<open>n\<close> and all factors \<open>u\<close>, \<open>d\<close>, the
  array \<open>e\<close> returned by \<open>elementary_prices\<close> has \<open>e[0,0] = 1\<close> and, for \<open>1 \<le> i \<le> n\<close>,
  \<open>e[i,0] = e[i-1,0]/(2(1+rate[i-1,0]))\<close>, \<open>e[i,i] = e[i-1,i-1]/(2(1+rate[i-1,i-1]))\<close> and,
  for \<open>0 < j < i\<close>, \<open>e[i,j] = e[i-1,j-1]/(2(1+rate[i-1,j-1])) + e[i-1,j]/(2(1+rate[i-1,j]))\<close>,
  where \<open>rate\<close> is the short-rate lattice divided by \<open>100\<close>. The divisions are the array
  divisions of the source on both sides of each equation.
\<close>

theorem elementary_prices_recursion:
  "(let e = get2 (elementary_prices r_0 n u d);
        rate = (\<lambda>i j. get2 (short_rate r_0 n u d) i j / 100)
    in e 0 0 = 1 \<and>
       (\<forall>i. 1 \<le> i \<and> i \<le> n \<longrightarrow>
          e i 0 = e (i - 1) 0 / (2 * (1 + rate (i - 1) 0)) \<and>
          e i i = e (i - 1) (i - 1) / (2 * (1 + rate (i - 1) (i - 1))) \<and>
          (\<forall>j. 0 < j \<and> j < i \<longrightarrow>
             e i j = e (i - 1) (j - 1) / (2 * (1 + rate (i - 1) (j - 1)))
                     + e (i - 1) j / (2 * (1 + rate (i - 1) j)))))"
proof -
  let ?s = "map (map (\<lambda>x. x / 100)) (short_rate r_0 n u d)"
  let ?e = "elementary_prices r_0 n u d"
  have rows: "\<And>i j. get2 ?e i j =
      (if 1 \<le> i \<and> i \<le> n \<and> j \<le> i then forward_entry ?s i j ?e else get2 (first_column ?s n) i j)"
    using elementary_prices_rows [of r_0 n u d] by blast
  have base: "get2 ?e 0 0 = 1"
    using rows [of 0 0] first_column [of ?s n] by simp
  have step: "get2 ?e i j = forward_entry ?s i j ?e" if "1 \<le> i" "i \<le> n" "j \<le> i" for i j
    using rows [of i j] that by simp
  have col0: "get2 ?e i 0 = get2 ?e (i - 1) 0 / (2 * (1 + get2 (short_rate r_0 n u d) (i - 1) 0 / 100))"
    if "1 \<le> i" "i \<le> n" for i
  proof -
    have sr: "get2 ?s (i - 1) 0 = get2 (short_rate r_0 n u d) (i - 1) 0 / 100"
      by (rule scaled_rate) (use that in auto)
    show ?thesis
      unfolding step [OF that le0] forward_entry_def sr by simp
  qed
  have diag: "get2 ?e i i = get2 ?e (i - 1) (i - 1) / (2 * (1 + get2 (short_rate r_0 n u d) (i - 1) (i - 1) / 100))"
    if "1 \<le> i" "i \<le> n" for i
  proof -
    have sr: "get2 ?s (i - 1) (i - 1) = get2 (short_rate r_0 n u d) (i - 1) (i - 1) / 100"
      by (rule scaled_rate) (use that in auto)
    have "get2 ?e i i = forward_entry ?s i i ?e"
      by (rule step) (use that in auto)
    then show ?thesis
      unfolding forward_entry_def sr using that by simp
  qed
  have inner: "get2 ?e i j =
      get2 ?e (i - 1) (j - 1) / (2 * (1 + get2 (short_rate r_0 n u d) (i - 1) (j - 1) / 100))
      + get2 ?e (i - 1) j / (2 * (1 + get2 (short_rate r_0 n u d) (i - 1) j / 100))"
    if "1 \<le> i" "i \<le> n" "0 < j" "j < i" for i j
  proof -
    have sr: "get2 ?s (i - 1) (j - 1) = get2 (short_rate r_0 n u d) (i - 1) (j - 1) / 100"
      "get2 ?s (i - 1) j = get2 (short_rate r_0 n u d) (i - 1) j / 100"
      by (rule scaled_rate; use that in auto)+
    have "get2 ?e i j = forward_entry ?s i j ?e"
      by (rule step) (use that in auto)
    then show ?thesis
      unfolding forward_entry_def sr using that by simp
  qed
  show ?thesis
    unfolding Let_def using base col0 diag inner by blast
qed

theorem elementary_prices_recursion_witness:
  "(1::nat) \<le> 2 \<and> (0::nat) < 1 \<and>
   get2 (elementary_prices 6 2 (5/4) (9/10)) 2 1 =
     get2 (elementary_prices 6 2 (5/4) (9/10)) 1 0 / (2 * (1 + get2 (short_rate 6 2 (5/4) (9/10)) 1 0 / 100))
     + get2 (elementary_prices 6 2 (5/4) (9/10)) 1 1 / (2 * (1 + get2 (short_rate 6 2 (5/4) (9/10)) 1 1 / 100))"
proof -
  have "\<forall>j. 0 < j \<and> j < 2 \<longrightarrow>
     get2 (elementary_prices 6 2 (5/4) (9/10)) 2 j =
     get2 (elementary_prices 6 2 (5/4) (9/10)) (2 - 1) (j - 1)
        / (2 * (1 + get2 (short_rate 6 2 (5/4) (9/10)) (2 - 1) (j - 1) / 100))
     + get2 (elementary_prices 6 2 (5/4) (9/10)) (2 - 1) j
        / (2 * (1 + get2 (short_rate 6 2 (5/4) (9/10)) (2 - 1) j / 100))"
    using elementary_prices_recursion [of 6 2 "5/4" "9/10"] unfolding Let_def by simp
  from this [rule_format, of 1] show ?thesis by simp
qed

text \<open>
  C2. For every maturity \<open>k\<close>, \<open>zcb_price_forward(k, r_0, u, d, fv)\<close> is \<open>fv\<close> times the sum over
  the states \<open>j = 0..k\<close> of the elementary prices \<open>elementary_prices(r_0, k, u, d)[k, j]\<close>.
\<close>

theorem zcb_price_forward_sum:
  "zcb_price_forward k r_0 u d fv = fv * (\<Sum>j\<le>k. get2 (elementary_prices r_0 k u d) k j)"
  using row_sum [OF elementary_prices_shape, of k k r_0 u d]
  by (simp add: zcb_price_forward_def lessThan_Suc_atMost)

text \<open>
  C5. When every short rate of the lattice is non-negative, the sum over the states \<open>j\<close> of
  the elementary prices at time step \<open>k\<close> is \<open>1\<close> at \<open>k = 0\<close> and does not increase with
  \<open>k\<close>; that sum is the price \<open>zcb_price_forward(k, r_0, u, d, 1)\<close> of the zero-coupon bond
  of maturity \<open>k\<close> and face value \<open>1\<close>.
\<close>

theorem discounting_monotone:
  assumes "\<forall>i j. j \<le> i \<and> i \<le> n \<longrightarrow> 0 \<le> get2 (short_rate r_0 n u d) i j"
  shows "(\<Sum>j\<le>0. get2 (elementary_prices r_0 n u d) 0 j) = 1 \<and>
         (\<forall>k k'. k \<le> k' \<and> k' \<le> n \<longrightarrow>
            (\<Sum>j\<le>k'. get2 (elementary_prices r_0 n u d) k' j)
            \<le> (\<Sum>j\<le>k. get2 (elementary_prices r_0 n u d) k j)) \<and>
         (\<forall>k. k \<le> n \<longrightarrow>
            zcb_price_forward k r_0 u d 1 = (\<Sum>j\<le>k. get2 (elementary_prices r_0 n u d) k j))"
proof (intro conjI allI impI)
  show "(\<Sum>j\<le>0. get2 (elementary_prices r_0 n u d) 0 j) = 1"
    by (simp add: elementary_prices_origin)
next
  fix k k' assume "k \<le> k' \<and> k' \<le> n"
  then show "(\<Sum>j\<le>k'. get2 (elementary_prices r_0 n u d) k' j)
            \<le> (\<Sum>j\<le>k. get2 (elementary_prices r_0 n u d) k j)"
    using assms by (intro row_sum_antimono) auto
next
  fix k assume "k \<le> n"
  then show "zcb_price_forward k r_0 u d 1 = (\<Sum>j\<le>k. get2 (elementary_prices r_0 n u d) k j)"
    by (simp add: zcb_price_forward_row)
qed

theorem discounting_monotone_witness:
  "0 \<le> get2 (short_rate 6 1 (5/4) (9/10)) 0 0 \<and>
   0 \<le> get2 (short_rate 6 1 (5/4) (9/10)) 1 0 \<and>
   0 \<le> get2 (short_rate 6 1 (5/4) (9/10)) 1 1 \<and>
   (\<Sum>j\<le>1. get2 (elementary_prices 6 1 (5/4) (9/10)) 1 j)
     \<le> (\<Sum>j\<le>0. get2 (elementary_prices 6 1 (5/4) (9/10)) 0 j) \<and>
   zcb_price_forward 1 6 (5/4) (9/10) 1 = (\<Sum>j\<le>1. get2 (elementary_prices 6 1 (5/4) (9/10)) 1 j)"
proof -
  have rates: "\<forall>i j. j \<le> i \<and> i \<le> 1 \<longrightarrow> 0 \<le> get2 (short_rate 6 1 (5/4) (9/10)) i j"
    by (simp add: short_rate_closed)
  have mono: "(\<Sum>j\<le>1. get2 (elementary_prices 6 1 (5/4) (9/10)) 1 j)
     \<le> (\<Sum>j\<le>0. get2 (elementary_prices 6 1 (5/4) (9/10)) 0 j)"
    using discounting_monotone [OF rates, THEN conjunct2, THEN conjunct1, rule_format, of 0 1]
    by simp
  have zcb: "zcb_price_forward 1 6 (5/4) (9/10) 1 = (\<Sum>j\<le>1. get2 (elementary_prices 6 1 (5/4) (9/10)) 1 j)"
    using discounting_monotone [OF rates, THEN conjunct2, THEN conjunct2, rule_format, of 1]
    by simp
  show ?thesis
    using mono zcb rates [rule_format, of 0 0] rates [rule_format, of 0 1] rates [rule_format, of 1 1]
    by simp
qed

text \<open>
  C6 (as amended). On a flat lattice (\<open>u = d = 1\<close>, every node at the rate \<open>r > 0\<close>, given in
  percent) the spot rate that \<open>term_structure(r, n, 1, 1)\<close> returns for each maturity
  \<open>1 \<le> k \<le> n\<close> is exactly the per-period decimal rate \<open>r / 100\<close>: \<open>term_structure\<close> returns
  decimals, and it is \<open>plot_term_structure\<close> that multiplies them by \<open>100\<close>. Maturity \<open>k\<close> is
  entry \<open>k - 1\<close> of the returned array.
\<close>

theorem term_structure_flat:
  "0 < r \<Longrightarrow> 1 \<le> k \<Longrightarrow> k \<le> n \<Longrightarrow> term_structure r n 1 1 ! (k - 1) = r / 100"
  by (rule flat_spot_rate) simp_all

theorem term_structure_flat_witness:
  "(0::real) < 6 \<and> (1::nat) \<le> 2 \<and> (2::nat) \<le> 3 \<and> term_structure 6 3 1 1 ! (2 - 1) = 6 / 100"
  using term_structure_flat [of 6 2 3] by simp

text \<open>
  The spot rate is therefore not the percent rate \<open>r\<close> that was passed in: for \<open>r = 6\<close> the
  two-period spot rate is \<open>0.06\<close>.
\<close>

theorem term_structure_flat_not_percent:
  "term_structure 6 3 1 1 ! (2 - 1) = 3 / 50 \<and> term_structure 6 3 1 1 ! (2 - 1) \<noteq> 6"
  using flat_spot_rate [of 6 2 3] by simp

section \<open>Degenerate lattice\<close>

text \<open>
  C7 (as amended). Whenever \<open>u = d\<close> and \<open>r_f\<close>, \<open>u\<close>, \<open>d\<close> are Python numbers, the first
  statement of \<open>binomial_tree\<close> divides by \<open>u - d = 0\<close> and the call fails there with Python's
  \<open>ZeroDivisionError\<close>, whatever the other arguments (period count and tags included) are;
  no price is returned. The exception is the division's own: the code has no check for a
  degenerate lattice.
\<close>

theorem binomial_tree_degenerate:
  "binomial_tree_call Python_scalar Python_scalar Python_scalar n r_f S_0 K u u PutCall Type =
     Inl ZeroDivisionError"
  by (simp add: binomial_tree_call_def binomial_tree_def py_div_def bindE_def)

text \<open>
  With numpy scalars the same call raises nothing. For \<open>u = d = 1.07\<close> and \<open>r_f = 0.01\<close> the
  probability is \<open>q = -0.06/0 = -inf\<close>; the European put of the notebook's example comes
  back as \<open>nan\<close>, and the American one as \<open>0\<close>, since \<open>max\<close> never prefers the \<open>nan\<close>
  continuation.
\<close>

theorem binomial_tree_degenerate_numpy_silent:
  "binomial_tree_call Numpy_scalar Numpy_scalar Numpy_scalar 3 (1 / 100) 100 100 (107 / 100) (107 / 100)
     ''Put'' ''E'' = Inr NaN \<and>
   binomial_tree_call Numpy_scalar Numpy_scalar Numpy_scalar 3 (1 / 100) 100 100 (107 / 100) (107 / 100)
     ''Put'' ''A'' = Inr (Fin 0)"
  by code_simp

section \<open>Option prices\<close>

text \<open>
  C4 (as amended). For an option of type \<open>'Call'\<close> or \<open>'Put'\<close>, every \<open>n \<ge> 0\<close> and all
  parameters that admit no arbitrage, that is \<open>u \<noteq> d\<close>, \<open>1 + r_f > 0\<close> and a risk-neutral
  probability \<open>q = ((1 + r_f) - d)/(u - d)\<close> with \<open>0 \<le> q \<le> 1\<close>, both styles return a price and
  the American price is at least the European one.
\<close>

theorem american_at_least_european:
  assumes "PutCall = ''Call'' \<or> PutCall = ''Put''"
    and "u \<noteq> d" and "0 < 1 + r_f"
    and "0 \<le> ((1 + r_f) - d) / (u - d)" and "((1 + r_f) - d) / (u - d) \<le> 1"
  shows "\<exists>a e. binomial_tree (int n) r_f S_0 K u d PutCall ''A'' = Inr a \<and>
               binomial_tree (int n) r_f S_0 K u d PutCall ''E'' = Inr e \<and> e \<le> a"
proof -
  have "get2 (euro_lattice n r_f S_0 K u d PutCall) 0 0 \<le> get2 (amer_lattice n r_f S_0 K u d PutCall) 0 0"
    using american_dominates [OF assms(3-5), of 0 n S_0 K PutCall] by simp
  then show ?thesis
    using assms by (simp add: binomial_tree_european binomial_tree_american)
qed

theorem american_at_least_european_witness:
  "(''Put'' = ''Call'' \<or> ''Put'' = ''Put'') \<and> (107 / 100 :: real) \<noteq> 100 / 107 \<and> (0::real) < 1 + 1 / 100 \<and>
   (0::real) \<le> ((1 + 1 / 100) - 100 / 107) / (107 / 100 - 100 / 107) \<and>
   ((1 + 1 / 100) - 100 / 107) / (107 / 100 - 100 / 107) \<le> (1::real) \<and>
   (\<exists>a e. binomial_tree (int 3) (1 / 100) 100 100 (107 / 100) (100 / 107) ''Put'' ''A'' = Inr a \<and>
          binomial_tree (int 3) (1 / 100) 100 100 (107 / 100) (100 / 107) ''Put'' ''E'' = Inr e \<and> e \<le> a)"
proof -
  have h: "''Put'' = ''Call'' \<or> ''Put'' = ''Put''" "(107 / 100 :: real) \<noteq> 100 / 107" "(0::real) < 1 + 1 / 100"
    "(0::real) \<le> ((1 + 1 / 100) - 100 / 107) / (107 / 100 - 100 / 107)"
    "((1 + 1 / 100) - 100 / 107) / (107 / 100 - 100 / 107) \<le> (1::real)"
    by simp_all
  from american_at_least_european [OF h, of 3 100 100] h show ?thesis
    by blast
qed

text \<open>
  Without the condition on \<open>q\<close> the order can fail, for positive factors \<open>u > 1 > d\<close> and
  \<open>n \<ge> 0\<close>: with \<open>r_f = 0.2\<close>, \<open>u = 1.1\<close>, \<open>d = 0.9\<close> the probability is \<open>q = 1.5\<close>, the
  two-period American put is worth \<open>0\<close> and the European put \<open>325/144\<close>.
\<close>

theorem american_below_european_with_arbitrage:
  "binomial_tree 2 (1 / 5) 100 100 (11 / 10) (9 / 10) ''Put'' ''A'' = Inr 0 \<and>
   binomial_tree 2 (1 / 5) 100 100 (11 / 10) (9 / 10) ''Put'' ''E'' = Inr (325 / 144)"
  by code_simp

text \<open>
  C8 (as amended). \<open>binomial_tree\<close> validates neither tag and raises nothing for an
  unknown one. With \<open>u \<noteq> d\<close> and \<open>1 + r_f \<noteq> 0\<close>: an option type other than \<open>'Call'\<close> and
  \<open>'Put'\<close> leaves the terminal payoffs at zero and the returned price is \<open>0\<close>, for every
  style tag; a style other than \<open>'E'\<close> and \<open>'A'\<close> runs no backward induction and, for
  \<open>n \<ge> 1\<close>, the returned price is the untouched entry \<open>option_price[0,0] = 0\<close>.
\<close>

theorem binomial_tree_unknown_tags:
  "u \<noteq> d \<Longrightarrow> 1 + r_f \<noteq> 0 \<Longrightarrow>
   (PutCall \<noteq> ''Call'' \<and> PutCall \<noteq> ''Put'') \<or> (Type \<noteq> ''E'' \<and> Type \<noteq> ''A'' \<and> 1 \<le> n) \<Longrightarrow>
   binomial_tree (int n) r_f S_0 K u d PutCall Type = Inr 0"
  by (rule binomial_tree_bad_tags)

theorem binomial_tree_unknown_tags_witness:
  "(2::real) \<noteq> 1 / 2 \<and> (1::real) + 1 / 100 \<noteq> 0 \<and>
   ((''Straddle'' \<noteq> ''Call'' \<and> ''Straddle'' \<noteq> ''Put'') \<or> (''A'' \<noteq> ''E'' \<and> ''A'' \<noteq> ''A'' \<and> (1::nat) \<le> 3)) \<and>
   binomial_tree (int 3) (1 / 100) 100 100 2 (1 / 2) ''Straddle'' ''A'' = Inr 0"
  using binomial_tree_unknown_tags [of 2 "1 / 2" "1 / 100" "''Straddle''" "''A''" 3 100 100]
  by simp

text \<open>
  With both tags unknown the worked example of the notebook is priced at \<open>0\<close>, without an
  exception.
\<close>

theorem binomial_tree_unknown_tags_price_zero:
  "binomial_tree 3 (1 / 100) 100 100 (107 / 100) (100 / 107) ''Straddle'' ''B'' = Inr 0"
  by code_simp

section \<open>Units of the rate inputs\<close>

text \<open>
  C3 (as amended). Among \<open>binomial_tree\<close>, \<open>swap_price\<close>, \<open>swaption_price\<close> and the
  forward-equation routines, every rate input but one is a percentage that enters the
  discounting divided by \<open>100\<close>, and the formulas below determine each price:
  \<^item> a one-period swap is worth \<open>p (r_0/100 - k/100)/(1 + r_0/100)\<close>; a longer swap adds the
    net coupon \<open>r_0/100 - k/100\<close> to the mean of its two successor prices and discounts by
    \<open>1/(1 + r_0/100)\<close>;
  \<^item> a swaption at expiry is worth \<open>max(swap price, 0)\<close>, the swap priced at the swaption's
    fixed rate, and before expiry the mean of its two successor prices discounted by
    \<open>1/(1 + r_0/100)\<close>;
  \<^item> the elementary prices follow the forward equations with the node rate
    \<open>r_0 u^j d^(i-j)/100\<close>, and \<open>zcb_price_forward\<close> and \<open>term_structure\<close> use the rate only
    through them.

  The exception is the risk-free rate of \<open>binomial_tree\<close>, which is used as the per-period
  decimal it is passed as: with \<open>u \<noteq> d\<close> and \<open>1 + r_f \<noteq> 0\<close>, the price over no period is the
  payoff, and over \<open>n + 1\<close> periods the European price is
  \<open>(1/(1 + r_f)) (q a + (1 - q) b)\<close> with \<open>q = ((1 + r_f) - d)/(u - d)\<close> and \<open>a\<close>, \<open>b\<close> the
  prices over \<open>n\<close> periods from \<open>S_0 u\<close> and \<open>S_0 d\<close>; the American price of a call or put is
  the greatest of \<open>0\<close>, the exercise value and that same expression on the American prices.
\<close>

theorem rate_conventions:
  assumes "u \<noteq> d" and "1 + r_f \<noteq> 0" and "n_o \<le> m"
  shows
   "binomial_tree 0 r_f S_0 K u d PutCall Type =
      Inr (if PutCall = ''Call'' then max 0 (S_0 - K)
           else if PutCall = ''Put'' then max 0 (K - S_0) else 0) \<and>
    (\<exists>a b. binomial_tree (int n) r_f (S_0 * u) K u d PutCall ''E'' = Inr a \<and>
           binomial_tree (int n) r_f (S_0 * d) K u d PutCall ''E'' = Inr b \<and>
           binomial_tree (int (Suc n)) r_f S_0 K u d PutCall ''E'' =
             Inr ((1 / (1 + r_f)) *
                    ((((1 + r_f) - d) / (u - d)) * a + (1 - ((1 + r_f) - d) / (u - d)) * b))) \<and>
    (PutCall = ''Call'' \<or> PutCall = ''Put'' \<longrightarrow>
     (\<exists>a b. binomial_tree (int n) r_f (S_0 * u) K u d PutCall ''A'' = Inr a \<and>
            binomial_tree (int n) r_f (S_0 * d) K u d PutCall ''A'' = Inr b \<and>
            binomial_tree (int (Suc n)) r_f S_0 K u d PutCall ''A'' =
              Inr (max 0 (max (if PutCall = ''Put'' then K - S_0 else S_0 - K)
                     ((1 / (1 + r_f)) *
                        ((((1 + r_f) - d) / (u - d)) * a + (1 - ((1 + r_f) - d) / (u - d)) * b)))))) \<and>
    swap_price p k r_0 1 u' d' = Inr ((r_0 / 100 - k / 100) / (1 + r_0 / 100) * p) \<and>
    (\<exists>a b. swap_price 1 k (r_0 * u') (Suc m) u' d' = Inr a \<and>
           swap_price 1 k (r_0 * d') (Suc m) u' d' = Inr b \<and>
           swap_price p k r_0 (Suc (Suc m)) u' d' =
             Inr ((1 / (1 + r_0 / 100)) * ((1 / 2) * a + (1 - 1 / 2) * b + (r_0 / 100 - k / 100)) * p)) \<and>
    (\<exists>a. swap_price 1 k r_0 (Suc m) u' d' = Inr a \<and>
         swaption_price k' k r_0 0 (Suc m) u' d' = Inr (max a 0)) \<and>
    (\<exists>a b. swaption_price k' k (r_0 * u') n_o (Suc m) u' d' = Inr a \<and>
           swaption_price k' k (r_0 * d') n_o (Suc m) u' d' = Inr b \<and>
           swaption_price k' k r_0 (Suc n_o) (Suc (Suc m)) u' d' =
             Inr ((1 / (1 + r_0 / 100)) * ((1 / 2) * a + (1 - 1 / 2) * b))) \<and>
    get2 (elementary_prices r_0 n' u' d') 0 0 = 1 \<and>
    (\<forall>i j. 1 \<le> i \<and> i \<le> n' \<and> j \<le> i \<longrightarrow>
       get2 (elementary_prices r_0 n' u' d') i j =
         (if j = 0 then 0
          else get2 (elementary_prices r_0 n' u' d') (i - 1) (j - 1)
                 / (2 * (1 + r_0 * u' ^ (j - 1) * d' ^ (i - 1 - (j - 1)) / 100)))
         + (if j < i
            then get2 (elementary_prices r_0 n' u' d') (i - 1) j
                   / (2 * (1 + r_0 * u' ^ j * d' ^ (i - 1 - j) / 100))
            else 0)) \<and>
    zcb_price_forward n' r_0 u' d' fv = fv * (\<Sum>j\<le>n'. get2 (elementary_prices r_0 n' u' d') n' j) \<and>
    (\<forall>i. 1 \<le> i \<and> i \<le> n' \<longrightarrow>
       term_structure r_0 n' u' d' ! (i - 1) = (100 / zcb_price_forward i r_0 u' d' 100) powr (1 / real i) - 1)"
proof (intro conjI impI allI)
  show "binomial_tree 0 r_f S_0 K u d PutCall Type =
      Inr (if PutCall = ''Call'' then max 0 (S_0 - K)
           else if PutCall = ''Put'' then max 0 (K - S_0) else 0)"
    using assms(1) by (rule binomial_tree_no_period)
  show "\<exists>a b. binomial_tree (int n) r_f (S_0 * u) K u d PutCall ''E'' = Inr a \<and>
           binomial_tree (int n) r_f (S_0 * d) K u d PutCall ''E'' = Inr b \<and>
           binomial_tree (int (Suc n)) r_f S_0 K u d PutCall ''E'' =
             Inr ((1 / (1 + r_f)) *
                    ((((1 + r_f) - d) / (u - d)) * a + (1 - ((1 + r_f) - d) / (u - d)) * b))"
    using assms(1,2) by (rule binomial_tree_european_step)
  show "\<exists>a b. binomial_tree (int n) r_f (S_0 * u) K u d PutCall ''A'' = Inr a \<and>
            binomial_tree (int n) r_f (S_0 * d) K u d PutCall ''A'' = Inr b \<and>
            binomial_tree (int (Suc n)) r_f S_0 K u d PutCall ''A'' =
              Inr (max 0 (max (if PutCall = ''Put'' then K - S_0 else S_0 - K)
                     ((1 / (1 + r_f)) *
                        ((((1 + r_f) - d) / (u - d)) * a + (1 - ((1 + r_f) - d) / (u - d)) * b))))"
    if "PutCall = ''Call'' \<or> PutCall = ''Put''"
    using assms(1,2) that by (rule binomial_tree_american_step)
  show "swap_price p k r_0 1 u' d' = Inr ((r_0 / 100 - k / 100) / (1 + r_0 / 100) * p)"
    by (rule swap_price_single)
  show "\<exists>a b. swap_price 1 k (r_0 * u') (Suc m) u' d' = Inr a \<and>
           swap_price 1 k (r_0 * d') (Suc m) u' d' = Inr b \<and>
           swap_price p k r_0 (Suc (Suc m)) u' d' =
             Inr ((1 / (1 + r_0 / 100)) * ((1 / 2) * a + (1 - 1 / 2) * b + (r_0 / 100 - k / 100)) * p)"
    by (rule swap_price_step)
  show "\<exists>a. swap_price 1 k r_0 (Suc m) u' d' = Inr a \<and>
         swaption_price k' k r_0 0 (Suc m) u' d' = Inr (max a 0)"
    by (rule swaption_price_at_expiry)
  show "\<exists>a b. swaption_price k' k (r_0 * u') n_o (Suc m) u' d' = Inr a \<and>
           swaption_price k' k (r_0 * d') n_o (Suc m) u' d' = Inr b \<and>
           swaption_price k' k r_0 (Suc n_o) (Suc (Suc m)) u' d' =
             Inr ((1 / (1 + r_0 / 100)) * ((1 / 2) * a + (1 - 1 / 2) * b))"
    using assms(3) by (rule swaption_price_step)
  show "get2 (elementary_prices r_0 n' u' d') 0 0 = 1"
    by (rule elementary_prices_origin)
  show "get2 (elementary_prices r_0 n' u' d') i j =
         (if j = 0 then 0
          else get2 (elementary_prices r_0 n' u' d') (i - 1) (j - 1)
                 / (2 * (1 + r_0 * u' ^ (j - 1) * d' ^ (i - 1 - (j - 1)) / 100)))
         + (if j < i
            then get2 (elementary_prices r_0 n' u' d') (i - 1) j
                   / (2 * (1 + r_0 * u' ^ j * d' ^ (i - 1 - j) / 100))
            else 0)"
    if "1 \<le> i \<and> i \<le> n' \<and> j \<le> i" for i j
    using that by (intro elementary_prices_explicit) auto
  show "zcb_price_forward n' r_0 u' d' fv = fv * (\<Sum>j\<le>n'. get2 (elementary_prices r_0 n' u' d') n' j)"
    by (rule zcb_price_forward_row) simp
  show "term_structure r_0 n' u' d' ! (i - 1) = (100 / zcb_price_forward i r_0 u' d' 100) powr (1 / real i) - 1"
    if "1 \<le> i \<and> i \<le> n'" for i
    using that by (intro term_structure_entry) auto
qed

theorem rate_conventions_witness:
  "(2::real) \<noteq> 1 / 2 \<and> (1::real) + 5 \<noteq> 0 \<and> (0::nat) \<le> 0 \<and>
   (''Put'' = ''Call'' \<or> ''Put'' = ''Put'') \<and> (1::nat) \<le> 1 \<and>
   (\<exists>a b. binomial_tree (int 0) 5 (100 * 2) 100 2 (1 / 2) ''Put'' ''A'' = Inr a \<and>
          binomial_tree (int 0) 5 (100 * (1 / 2)) 100 2 (1 / 2) ''Put'' ''A'' = Inr b \<and>
          binomial_tree (int (Suc 0)) 5 100 100 2 (1 / 2) ''Put'' ''A'' =
            Inr (max 0 (max (if ''Put'' = ''Put'' then 100 - 100 else 100 - 100)
                   ((1 / (1 + 5)) *
                      ((((1 + 5) - 1 / 2) / (2 - 1 / 2)) * a + (1 - ((1 + 5) - 1 / 2) / (2 - 1 / 2)) * b))))) \<and>
   swap_price 100 5 6 1 (5 / 4) (9 / 10) = Inr ((6 / 100 - 5 / 100) / (1 + 6 / 100) * 100) \<and>
   term_structure 6 1 (5 / 4) (9 / 10) ! (1 - 1)
     = (100 / zcb_price_forward 1 6 (5 / 4) (9 / 10) 100) powr (1 / real (1::nat)) - 1"
proof -
  have h: "(2::real) \<noteq> 1 / 2" "(1::real) + 5 \<noteq> 0" "(0::nat) \<le> 0"
    by simp_all
  note th = rate_conventions [OF h, of 100 100 "''Put''" _ 0 100 5 6 "5 / 4" "9 / 10" _ 1]
  have pc: "''Put'' = ''Call'' \<or> ''Put'' = ''Put''" by simp
  have one: "(1::nat) \<le> 1 \<and> (1::nat) \<le> 1" by simp
  note amer = th [THEN conjunct2, THEN conjunct2, THEN conjunct1, THEN mp, OF pc]
  note swap = th [THEN conjunct2, THEN conjunct2, THEN conjunct2, THEN conjunct1]
  note ts = th [THEN conjunct2, THEN conjunct2, THEN conjunct2, THEN conjunct2, THEN conjunct2,
      THEN conjunct2, THEN conjunct2, THEN conjunct2, THEN conjunct2, THEN conjunct2,
      THEN spec, of 1, THEN mp, OF one]
  show ?thesis
    using h pc amer swap ts by (intro conjI) simp_all
qed

text \<open>
  So a rate of \<open>5\<close> passed to \<open>binomial_tree\<close> is five hundred percent per period, not five:
  the one-period call below is priced at \<open>550/9\<close>, where the percent convention would give
  \<open>2200/63\<close>.
\<close>

theorem binomial_tree_rate_not_percent:
  "binomial_tree 1 5 100 100 2 (1 / 2) ''Call'' ''E'' = Inr (550 / 9) \<and>
   binomial_tree_percent 1 5 100 100 2 (1 / 2) ''Call'' ''E'' = Inr (2200 / 63)"
  by code_simp

section \<open>Swap and swaption\<close>

text \<open>
  C9. In \<open>swap_price\<close>, for every \<open>n \<ge> 1\<close>, the branch \<open>if i < j: swap_price[i,j] = ''\<close> is
  never executed: \<open>j\<close> only runs over \<open>0..i\<close>. In the model that branch is the only source
  of \<open>ValueError\<close> and any exception ends the call, so the claim is that the call returns
  a number.
\<close>

theorem swap_price_string_branch_dead:
  "1 \<le> n \<Longrightarrow> \<exists>v. swap_price p k r_0 n u d = Inr v"
  unfolding swap_price_def Let_def swap_price_loops bindE_def by simp

theorem swap_price_string_branch_dead_witness:
  "(1::nat) \<le> 10 \<and> (\<exists>v. swap_price 100 5 6 10 (5/4) (9/10) = Inr v)"
  using swap_price_string_branch_dead [of 10 100 5 6 "5/4" "9/10"] by simp

text \<open>
  C10. The strike \<open>k\<close> of \<open>swaption_price\<close> is never read: two calls that differ only in
  the strike agree, in the price and in the exception when one is raised.
\<close>

theorem swaption_price_strike_independent:
  "swaption_price k1 r_f r_0 n_o n u d = swaption_price k2 r_f r_0 n_o n u d"
  by (simp add: swaption_price_def)

end
